theory Spec2Isabelle
  imports Main "HOL-Library.Sublist"
begin

section \<open>Strings\<close>

text \<open>
  Field names, field values and titles are Python \<open>str\<close> objects, modelled as
  \<open>string\<close> (lists of \<open>char\<close>, a \<open>char\<close> standing for a code point).
  In the field loop, \<open>str.split()\<close>, \<open>str.lower()\<close> and \<open>str.capitalize()\<close> are
  modelled on ASCII text: there, code points above 127 are outside the model.
  In \<open>clean_filename\<close> the character classes \<open>\w\<close> and \<open>\s\<close> of the module
  \<open>re\<close> are parameters; on ASCII characters they are \<open>is_word\<close> and \<open>is_space\<close>.
\<close>

definition ascii_whitespace :: "char list" where
  "ascii_whitespace =
     [CHR 0x09, CHR 0x0A, CHR 0x0B, CHR 0x0C, CHR 0x0D, CHR 0x1C, CHR 0x1D, CHR 0x1E, CHR 0x1F, CHR 0x20]"

definition is_space :: "char \<Rightarrow> bool" where
  "is_space c = (c \<in> set ascii_whitespace)"

definition ascii_lowercase :: "char list" where
  "ascii_lowercase = ''abcdefghijklmnopqrstuvwxyz''"

definition ascii_uppercase :: "char list" where
  "ascii_uppercase = ''ABCDEFGHIJKLMNOPQRSTUVWXYZ''"

definition is_word :: "char \<Rightarrow> bool" where
  "is_word c = (c \<in> set (ascii_lowercase @ ascii_uppercase @ ''0123456789'' @ ''_''))"

definition lower_char :: "char \<Rightarrow> char" where
  "lower_char c = (case map_of (zip ascii_uppercase ascii_lowercase) c of Some d \<Rightarrow> d | None \<Rightarrow> c)"

definition upper_char :: "char \<Rightarrow> char" where
  "upper_char c = (case map_of (zip ascii_lowercase ascii_uppercase) c of Some d \<Rightarrow> d | None \<Rightarrow> c)"

definition lower :: "string \<Rightarrow> string" where
  "lower s = map lower_char s"

text \<open>\<open>s.startswith(p)\<close> and \<open>sub in s\<close>.\<close>

fun startswith :: "string \<Rightarrow> string \<Rightarrow> bool" where
  "startswith s [] = True"
| "startswith [] (p # ps) = False"
| "startswith (c # cs) (p # ps) = (c = p \<and> startswith cs ps)"

fun str_in :: "string \<Rightarrow> string \<Rightarrow> bool" where
  "str_in sub [] = (sub = [])"
| "str_in sub (c # cs) = (startswith (c # cs) sub \<or> str_in sub cs)"

text \<open>
  \<open>s.split()\<close> without arguments: the maximal runs of non-whitespace characters.
  \<open>split_from cur s\<close> scans \<open>s\<close> with the token read so far in \<open>cur\<close>.
\<close>

fun split_from :: "string \<Rightarrow> string \<Rightarrow> string list" where
  "split_from cur [] = (if cur = [] then [] else [cur])"
| "split_from cur (c # cs) =
     (if is_space c then (if cur = [] then split_from [] cs else cur # split_from [] cs)
      else split_from (cur @ [c]) cs)"

definition py_split :: "string \<Rightarrow> string list" where
  "py_split s = split_from [] s"

fun str_join :: "string \<Rightarrow> string list \<Rightarrow> string" where
  "str_join sep [] = []"
| "str_join sep [w] = w"
| "str_join sep (w # ws) = w @ sep @ str_join sep ws"

definition capitalize :: "string \<Rightarrow> string" where
  "capitalize w = (case w of [] \<Rightarrow> [] | c # cs \<Rightarrow> upper_char c # map lower_char cs)"

datatype py_error =
    IndexError
  | NameError string
  | KeyError string
  | ValueError
  | TypeError
  | JSONDecodeError
  | ServiceError string

text \<open>\<open>key.split()[-1]\<close>: the last token, \<open>IndexError\<close> when there is none.\<close>

definition last_token :: "string \<Rightarrow> string option" where
  "last_token key = (case py_split key of [] \<Rightarrow> None | w # ws \<Rightarrow> Some (last (w # ws)))"

section \<open>generate\_product\_docs.py\<close>

subsection \<open>clean\_filename\<close>

text \<open>
  The regular expressions of \<open>clean_filename\<close> use the classes \<open>\w\<close> and \<open>\s\<close> of
  the module \<open>re\<close>, which on a \<open>str\<close> are the Unicode ones. They are the parameters
  \<open>word_class\<close> and \<open>space_class\<close> of the model. On the ASCII characters they are the
  tables \<open>is_word\<close> and \<open>is_space\<close>, which is all that is assumed of them.
\<close>

definition is_ascii :: "char \<Rightarrow> bool" where
  "is_ascii c = ((of_char c :: nat) < 128)"

definition ascii_classes :: "(char \<Rightarrow> bool) \<Rightarrow> (char \<Rightarrow> bool) \<Rightarrow> bool" where
  "ascii_classes word_class space_class =
     (\<forall>c. is_ascii c \<longrightarrow> (word_class c \<longleftrightarrow> is_word c) \<and> (space_class c \<longleftrightarrow> is_space c))"

text \<open>
  A \<open>char\<close> holds a code point below 256, and the classes are free on the code points
  from 128 up. \<open>latin_word\<close> and \<open>latin_space\<close> are classes that hold one such code point
  each, the letter e acute (U+00E9) and the no-break space (U+00A0), which Python puts in
  \<open>\w\<close> and in \<open>\s\<close>.
\<close>

definition latin_word :: "char \<Rightarrow> bool" where
  "latin_word c = (is_word c \<or> c = CHR 0xE9)"

definition latin_space :: "char \<Rightarrow> bool" where
  "latin_space c = (is_space c \<or> c = CHR 0xA0)"

text \<open>
  \<open>re.sub(r'[^\w\s-]', '', name)\<close> keeps the word characters, the whitespace and the hyphens.
\<close>

definition keep_char :: "(char \<Rightarrow> bool) \<Rightarrow> (char \<Rightarrow> bool) \<Rightarrow> char \<Rightarrow> bool" where
  "keep_char word_class space_class c = (word_class c \<or> space_class c \<or> c = CHR ''-'')"

definition remove_special :: "(char \<Rightarrow> bool) \<Rightarrow> (char \<Rightarrow> bool) \<Rightarrow> string \<Rightarrow> string" where
  "remove_special word_class space_class name = filter (keep_char word_class space_class) name"

text \<open>
  \<open>re.sub(r'[-\s]+', '_', cleaned)\<close>: the scan replaces each maximal run of hyphens and
  whitespace by one underscore. The flag says that the previous character belonged to a run.
\<close>

definition is_sep :: "(char \<Rightarrow> bool) \<Rightarrow> char \<Rightarrow> bool" where
  "is_sep space_class c = (c = CHR ''-'' \<or> space_class c)"

fun collapse_runs :: "(char \<Rightarrow> bool) \<Rightarrow> bool \<Rightarrow> string \<Rightarrow> string" where
  "collapse_runs space_class in_run [] = []"
| "collapse_runs space_class in_run (c # cs) =
     (if is_sep space_class c
      then (if in_run then collapse_runs space_class True cs
            else CHR ''_'' # collapse_runs space_class True cs)
      else c # collapse_runs space_class False cs)"

definition is_underscore :: "char \<Rightarrow> bool" where
  "is_underscore c = (c = CHR ''_'')"

definition strip_underscores :: "string \<Rightarrow> string" where
  "strip_underscores s = rev (dropWhile is_underscore (rev (dropWhile is_underscore s)))"

definition clean_filename :: "(char \<Rightarrow> bool) \<Rightarrow> (char \<Rightarrow> bool) \<Rightarrow> string \<Rightarrow> string" where
  "clean_filename word_class space_class name =
     strip_underscores (collapse_runs space_class False (remove_special word_class space_class name))"

subsection \<open>The filename in the words of the specification\<close>

text \<open>
  "Stripping all characters outside word-characters/whitespace/hyphen, collapsing runs of
  hyphen/whitespace to a single underscore, and trimming leading/trailing underscores."
  The stripped title is cut at its maximal runs of hyphens and whitespace; the pieces
  between the runs (the first and the last may be empty) are joined by single underscores;
  then the underscores at both ends are removed.
\<close>

function pieces :: "(char \<Rightarrow> bool) \<Rightarrow> string \<Rightarrow> string list" where
  "pieces space_class s =
     takeWhile (\<lambda>c. \<not> is_sep space_class c) s #
       (if dropWhile (\<lambda>c. \<not> is_sep space_class c) s = [] then []
        else pieces space_class
               (dropWhile (is_sep space_class) (dropWhile (\<lambda>c. \<not> is_sep space_class c) s)))"
  by pat_completeness auto
termination
proof (relation "measure (\<lambda>(space_class, s). length s)")
  show "wf (measure (\<lambda>(space_class, s). length s))"
    by simp
next
  fix space_class :: "char \<Rightarrow> bool" and s :: string
  assume ne: "dropWhile (\<lambda>c. \<not> is_sep space_class c) s \<noteq> []"
  define rest where "rest = dropWhile (\<lambda>c. \<not> is_sep space_class c) s"
  have "\<not> \<not> is_sep space_class (hd rest)"
    using ne unfolding rest_def by (rule hd_dropWhile)
  then have "length (dropWhile (is_sep space_class) rest) < length rest"
    using ne by (cases rest) (auto simp: rest_def le_imp_less_Suc length_dropWhile_le)
  moreover have "length rest \<le> length s"
    by (simp add: rest_def length_dropWhile_le)
  ultimately show "((space_class, dropWhile (is_sep space_class)
                       (dropWhile (\<lambda>c. \<not> is_sep space_class c) s)), (space_class, s))
                   \<in> measure (\<lambda>(space_class, s). length s)"
    by (simp add: rest_def)
qed

fun drop_trailing_underscores :: "string \<Rightarrow> string" where
  "drop_trailing_underscores [] = []"
| "drop_trailing_underscores (c # cs) =
     (if c = CHR ''_'' \<and> drop_trailing_underscores cs = [] then []
      else c # drop_trailing_underscores cs)"

definition spec_clean_filename :: "(char \<Rightarrow> bool) \<Rightarrow> (char \<Rightarrow> bool) \<Rightarrow> string \<Rightarrow> string" where
  "spec_clean_filename word_class space_class title =
     drop_trailing_underscores (dropWhile (\<lambda>c. c = CHR ''_'')
       (str_join ''_'' (pieces space_class
          (filter (\<lambda>c. word_class c \<or> space_class c \<or> c = CHR ''-'') title))))"

subsection \<open>is\_title\_field and format\_field\_name\<close>

definition title_keywords :: "string list" where
  "title_keywords = [''title'', ''name'', ''sku'']"

definition is_title_field :: "string \<Rightarrow> bool" where
  "is_title_field key = list_ex (\<lambda>keyword. str_in keyword (lower key)) title_keywords"

definition skip_fields :: "string list" where
  "skip_fields = [''Main category'', ''Cost'', ''Landing Cost'', ''Bag size'', ''Bag Price'', ''price/lb'']"

definition replace_underscores :: "string \<Rightarrow> string" where
  "replace_underscores s = map (\<lambda>c. if c = CHR ''_'' then CHR '' '' else c) s"

definition replace_slashes :: "string \<Rightarrow> string" where
  "replace_slashes s = concat (map (\<lambda>c. if c = CHR ''/'' then '' / '' else [c]) s)"

definition format_field_name :: "string \<Rightarrow> string option" where
  "format_field_name key =
     (if key \<in> set skip_fields then None
      else Some (str_join '' '' (map capitalize (py_split (replace_slashes (replace_underscores key))))))"

subsection \<open>The document and the product record\<close>

text \<open>
  A product is a Python \<open>dict\<close> loaded from JSON: an association list in insertion order,
  whose keys are distinct. Values are text; the falsy one is the empty string.

  The document is the sequence of blocks that \<open>create_product_document\<close> appends:
  \<^item> \<open>Title t\<close>: the centred level-1 heading with text \<open>t\<close> and the empty paragraph after it;
  \<^item> \<open>Table title data\<close>: the call \<open>add_table(doc, title, data)\<close>;
  \<^item> \<open>Heading level text\<close>: \<open>doc.add_heading(level)\<close> with one run of that text;
  \<^item> \<open>LabeledParagraph label text\<close>: a paragraph of the bold run \<open>label + ": "\<close> and the run \<open>text\<close>;
  \<^item> \<open>Paragraph text\<close>: a paragraph of one run;
  \<^item> \<open>SteppedItem n text\<close>: the level-3 heading \<open>"Step " + n\<close> and a paragraph of \<open>text\<close>;
  \<^item> \<open>FaqItem n text\<close>: a paragraph of the bold run \<open>"Q" + n + ": "\<close> and the run \<open>text\<close>.
  Fonts, sizes and spacing are not modelled.
\<close>

type_synonym product = "(string \<times> string) list"

datatype instr =
    Title string
  | Table string "(string \<times> string) list"
  | Heading nat string
  | LabeledParagraph string string
  | Paragraph string
  | SteppedItem string string
  | FaqItem string string

type_synonym build_state = "instr list \<times> string set"

definition table1_fields :: "string list" where
  "table1_fields =
     [''Sun Requirements (Full Sun, Full Sun to Partial Shade, Shade)'',
      ''Soil Preference'',
      ''Soil pH'',
      ''Days to Maturity'',
      ''Height when mature'',
      ''Seeding rate'',
      ''Planting Depth'']"

definition table2_fields :: "string list" where
  "table2_fields =
     [''Sun/Shade'',
      ''Height when Mature'',
      ''Seeding Rate'',
      ''Uses'',
      ''Color'',
      ''Water'',
      ''Native/Introduced'',
      ''Life Form'']"

text \<open>\<open>field in product_data and product_data[field]\<close>, giving the value when it holds.\<close>

definition truthy_value :: "product \<Rightarrow> string \<Rightarrow> string option" where
  "truthy_value product_data field =
     (case map_of product_data field of
        None \<Rightarrow> None
      | Some v \<Rightarrow> (if v = [] then None else Some v))"

text \<open>
  The collection loop of a table: the fields of the fixed list that are present and
  non-empty, in the order of the list (the names of each list are distinct, so every
  assignment to the table's dictionary appends).
\<close>

fun collect_fields :: "string list \<Rightarrow> product \<Rightarrow> (string \<times> string) list" where
  "collect_fields [] product_data = []"
| "collect_fields (field # fields) product_data =
     (case truthy_value product_data field of
        None \<Rightarrow> collect_fields fields product_data
      | Some v \<Rightarrow> (field, v) # collect_fields fields product_data)"

definition emit_table :: "string \<Rightarrow> string list \<Rightarrow> product \<Rightarrow> build_state \<Rightarrow> build_state" where
  "emit_table title fields product_data st =
     (case st of (doc, processed_fields) \<Rightarrow>
        (let table_data = collect_fields fields product_data
         in ((if table_data \<noteq> [] then doc @ [Table title table_data] else doc),
             processed_fields \<union> set (map fst table_data))))"

text \<open>The titles \<open>"Why chose this product Title {i}"\<close> for \<open>i\<close> in \<open>range(1, 6)\<close>.\<close>

definition why_chose_title_keys :: "string list" where
  "why_chose_title_keys = map (\<lambda>i. ''Why chose this product Title '' @ [i]) ''12345''"

definition why_chose_done :: "product \<Rightarrow> string set \<Rightarrow> bool" where
  "why_chose_done product_data processed_fields =
     list_all (\<lambda>title_key. \<not> (map_of product_data title_key \<noteq> None \<and> title_key \<notin> processed_fields))
       why_chose_title_keys"

text \<open>The last rule of the loop body: any remaining field.\<close>

definition remaining_field :: "string \<Rightarrow> string \<Rightarrow> string \<Rightarrow> build_state \<Rightarrow> build_state" where
  "remaining_field key val formatted_key st =
     (case st of (doc, processed_fields) \<Rightarrow>
        (if key \<notin> processed_fields
         then (doc @ [if is_title_field key then Heading 2 val else LabeledParagraph formatted_key val],
               insert key processed_fields)
         else st))"

text \<open>
  The rules below the Plant Characteristics table: planting guide steps, FAQ entries,
  the contents of the "Why chose" sections, and the remaining fields.
\<close>

definition later_rules :: "string \<Rightarrow> string \<Rightarrow> string \<Rightarrow> build_state \<Rightarrow> py_error + build_state" where
  "later_rules key val formatted_key st =
     (case st of (doc, processed_fields) \<Rightarrow>
        (if str_in ''planting guide step'' (lower key) then
           (case last_token key of
              None \<Rightarrow> Inl IndexError
            | Some step_num \<Rightarrow> Inr (doc @ [SteppedItem step_num val], insert key processed_fields))
         else if startswith key ''FAQ '' then
           (case last_token key of
              None \<Rightarrow> Inl IndexError
            | Some faq_num \<Rightarrow> Inr (doc @ [FaqItem faq_num val], insert key processed_fields))
         else if str_in ''why chose this product'' (lower key) \<and> \<not> str_in ''title'' (lower key) then
           Inr (doc, insert key processed_fields)
         else Inr (remaining_field key val formatted_key st)))"

text \<open>The "Why chose this product" title rule.\<close>

definition why_chose_section :: "product \<Rightarrow> string \<Rightarrow> string \<Rightarrow> build_state \<Rightarrow> py_error + build_state" where
  "why_chose_section product_data key val st =
     (case st of (doc, processed_fields) \<Rightarrow>
        (case last_token key of
           None \<Rightarrow> Inl IndexError
         | Some title_num \<Rightarrow>
             (let content_key = ''Why chose this product '' @ title_num
              in (case truthy_value product_data content_key of
                    Some content \<Rightarrow>
                      Inr (doc @ [Heading 3 val, Paragraph content],
                           insert content_key (insert key processed_fields))
                  | None \<Rightarrow> Inr st))))"

text \<open>
  The rules from the Plant Characteristics table on. With the gate closed the field is
  not handled here: control falls through to the later rules.
\<close>

definition table2_rules :: "product \<Rightarrow> string \<Rightarrow> string \<Rightarrow> string \<Rightarrow> build_state \<Rightarrow> py_error + build_state" where
  "table2_rules product_data key val formatted_key st =
     (case st of (doc, processed_fields) \<Rightarrow>
        (if key \<in> set table2_fields \<and> key \<notin> processed_fields then
           (if why_chose_done product_data processed_fields
            then Inr (emit_table ''Plant Characteristics'' table2_fields product_data st)
            else later_rules key val formatted_key st)
         else later_rules key val formatted_key st))"

text \<open>One iteration of the loop over \<open>product_data.items()\<close>.\<close>

definition process_field :: "product \<Rightarrow> string \<times> string \<Rightarrow> build_state \<Rightarrow> py_error + build_state" where
  "process_field product_data kv st =
     (case kv of (key, val) \<Rightarrow>
      (case st of (doc, processed_fields) \<Rightarrow>
        (if val = [] \<or> key \<in> processed_fields then Inr st
         else (case format_field_name key of
            None \<Rightarrow> Inr (doc, insert key processed_fields)
          | Some formatted_key \<Rightarrow>
             (if key \<in> set table1_fields \<and> key \<notin> processed_fields then
                Inr (emit_table ''Growing Conditions'' table1_fields product_data st)
              else if key \<in> set [''SKU'', ''Scientific Name / mix %''] then
                Inr (doc @ [if is_title_field key then Heading 2 val
                            else LabeledParagraph formatted_key val],
                     insert key processed_fields)
              else if str_in ''description'' (lower key) \<or> str_in ''what is'' (lower key) then
                Inr (doc @ [LabeledParagraph formatted_key val], insert key processed_fields)
              else if str_in ''why chose this product title'' (lower key) then
                why_chose_section product_data key val st
              else table2_rules product_data key val formatted_key st)))))"

fun process_fields :: "product \<Rightarrow> (string \<times> string) list \<Rightarrow> build_state \<Rightarrow> py_error + build_state" where
  "process_fields product_data [] st = Inr st"
| "process_fields product_data (kv # kvs) st =
     (case process_field product_data kv st of
        Inl e \<Rightarrow> Inl e
      | Inr st' \<Rightarrow> process_fields product_data kvs st')"

definition initial_state :: "product \<Rightarrow> build_state" where
  "initial_state product_data =
     ([Title (case map_of product_data ''Title'' of None \<Rightarrow> ''Unknown Product'' | Some t \<Rightarrow> t)],
      {''Title''})"

definition create_product_document :: "product \<Rightarrow> py_error + build_state" where
  "create_product_document product_data =
     process_fields product_data product_data (initial_state product_data)"

subsection \<open>Observations on a document\<close>

text \<open>The field values that an instruction renders, and the tables with a given title.\<close>

fun instr_values :: "instr \<Rightarrow> string list" where
  "instr_values (Title t) = [t]"
| "instr_values (Table title rows) = map snd rows"
| "instr_values (Heading level t) = [t]"
| "instr_values (LabeledParagraph label t) = [t]"
| "instr_values (Paragraph t) = [t]"
| "instr_values (SteppedItem n t) = [t]"
| "instr_values (FaqItem n t) = [t]"

fun table_titled :: "string \<Rightarrow> instr \<Rightarrow> bool" where
  "table_titled title (Table t rows) = (t = title)"
| "table_titled title _ = False"

text \<open>Invariants of the loop, used in the proofs below.\<close>

text \<open>Every table of the document is one of the two group tables.\<close>

definition tables_ok :: "product \<Rightarrow> build_state \<Rightarrow> bool" where
  "tables_ok pd st = (\<forall>title rows. Table title rows \<in> set (fst st) \<longrightarrow>
      (title = ''Growing Conditions'' \<and> rows = collect_fields table1_fields pd)
    \<or> (title = ''Plant Characteristics'' \<and> rows = collect_fields table2_fields pd))"

text \<open>Consumed names are Title or present with a non-empty value; body values are non-empty.\<close>

definition values_ok :: "product \<Rightarrow> build_state \<Rightarrow> bool" where
  "values_ok pd st = ((\<forall>k\<in>snd st. k = ''Title'' \<or> truthy_value pd k \<noteq> None)
     \<and> (\<forall>i\<in>set (tl (fst st)). [] \<notin> set (instr_values i)) \<and> fst st \<noteq> []
     \<and> ''Title'' \<in> snd st)"

text \<open>
  The two phases of the Growing Conditions table: not yet emitted (and none of its names
  consumed), and emitted once (with all its collected names consumed).
\<close>

definition gc_pending :: "build_state \<Rightarrow> bool" where
  "gc_pending st = (filter (table_titled ''Growing Conditions'') (fst st) = []
     \<and> snd st \<inter> set table1_fields = {})"

definition gc_emitted :: "product \<Rightarrow> build_state \<Rightarrow> bool" where
  "gc_emitted pd st =
     (filter (table_titled ''Growing Conditions'') (fst st)
        = [Table ''Growing Conditions'' (collect_fields table1_fields pd)]
      \<and> fst ` set (collect_fields table1_fields pd) \<subseteq> snd st)"

subsection \<open>The command line\<close>

text \<open>
  The names bound in the module's global namespace when the block under
  \<open>if __name__ == "__main__"\<close> runs: the imports and assignments at module level, the
  functions defined with \<open>def\<close>, and \<open>sys\<close>, imported by the block itself. The module
  \<open>os\<close> is imported inside \<open>main\<close> only, so it is local to that function, and no
  \<open>load_products\<close> is defined anywhere.
\<close>

definition module_globals :: "string list" where
  "module_globals =
     [''json'', ''re'', ''Document'', ''Inches'', ''Pt'', ''WD_ALIGN_PARAGRAPH'', ''OxmlElement'', ''qn'',
      ''products'', ''f'', ''clean_filename'', ''add_formatted_text'', ''is_title_field'',
      ''format_field_name'', ''add_table'', ''create_product_document'', ''main'', ''sys'']"

text \<open>Reading a global name raises \<open>NameError\<close> when the name is not bound.\<close>

definition resolve :: "string \<Rightarrow> py_error + unit" where
  "resolve name = (if name \<in> set module_globals then Inr () else Inl (NameError name))"

text \<open>\<open>d.get(key, default)\<close>.\<close>

definition dict_get :: "product \<Rightarrow> string \<Rightarrow> string \<Rightarrow> string" where
  "dict_get d key fallback = (case map_of d key of None \<Rightarrow> fallback | Some v \<Rightarrow> v)"

text \<open>
  What a run of the script does: the documents it saved (path and content) and, when it
  calls \<open>sys.exit\<close>, the status.
\<close>

datatype outcome = Saved "(string \<times> instr list) list" | Exit nat

text \<open>
  Decimal digits of a natural number, for \<open>f'Product_{i}'\<close>. Titles are ASCII text
  here, as in the field loop, so \<open>clean_filename\<close> is taken at the ASCII classes.
\<close>

function str_nat :: "nat \<Rightarrow> string" where
  "str_nat n = (if n < 10 then [''0123456789'' ! n] else str_nat (n div 10) @ [''0123456789'' ! (n mod 10)])"
  by pat_completeness auto
termination
  by (relation "measure (\<lambda>n. n)") auto

definition output_path :: "string \<Rightarrow> string" where
  "output_path filename = ''Product_Documents/'' @ filename @ ''.docx''"

text \<open>The loop of \<open>main\<close> over \<open>enumerate(products, 1)\<close>, from index \<open>i\<close> on.\<close>

fun generate_all :: "nat \<Rightarrow> product list \<Rightarrow> py_error + (string \<times> instr list) list" where
  "generate_all i [] = Inr []"
| "generate_all i (product # rest) =
     (let product_name = dict_get product ''Title'' (''Product_'' @ str_nat i);
          filename = clean_filename is_word is_space product_name
      in (case create_product_document product of
            Inl e \<Rightarrow> Inl e
          | Inr (doc, processed_fields) \<Rightarrow>
              (case generate_all (Suc i) rest of
                 Inl e \<Rightarrow> Inl e
               | Inr saved \<Rightarrow> Inr ((output_path filename, doc) # saved))))"

definition main :: "product list \<Rightarrow> py_error + outcome" where
  "main products = (case generate_all 1 products of Inl e \<Rightarrow> Inl e | Inr saved \<Rightarrow> Inr (Saved saved))"

text \<open>
  The \<open>--product\<close> branch. The collection it would search is what \<open>load_products()\<close>
  returns; the call is preceded by the lookup of that name. The rest of the branch is
  modelled as written, on the stored collection: the search for the first record whose
  title matches, the test \<open>if target_product\<close> (false for no match and for an empty
  record), the lookup of \<open>os\<close>, \<open>target_product['Title']\<close>, the build and the save.
\<close>

definition product_mode :: "product list \<Rightarrow> string \<Rightarrow> py_error + outcome" where
  "product_mode stored product_name =
     (case resolve ''load_products'' of
        Inl e \<Rightarrow> Inl e
      | Inr _ \<Rightarrow>
         (case find (\<lambda>product. lower (dict_get product ''Title'' '''') = lower product_name) stored of
            None \<Rightarrow> Inr (Exit 1)
          | Some target_product \<Rightarrow>
              (if target_product = [] then Inr (Exit 1)
               else (case resolve ''os'' of
                  Inl e \<Rightarrow> Inl e
                | Inr _ \<Rightarrow>
                   (case map_of target_product ''Title'' of
                      None \<Rightarrow> Inl (KeyError ''Title'')
                    | Some title \<Rightarrow>
                       (case create_product_document target_product of
                          Inl e \<Rightarrow> Inl e
                        | Inr (doc, processed_fields) \<Rightarrow>
                            Inr (Saved [(output_path (clean_filename is_word is_space title), doc)])))))))"

definition run_script :: "string list \<Rightarrow> product list \<Rightarrow> py_error + outcome" where
  "run_script argv stored =
     (if length argv > 2 \<and> argv ! 1 = ''--product'' then product_mode stored (argv ! 2)
      else main stored)"

section \<open>product\_requester.py\<close>

subsection \<open>The product collection\<close>

text \<open>
  The file \<open>products_data.json\<close> holds the list of products, or does not exist.
  \<open>load_existing_products\<close> returns the empty list for a missing file; \<open>save_products\<close>
  overwrites the file. The store also counts the calls of \<open>save_products\<close>.
\<close>

record store =
  products_file :: "product list option"
  saves :: nat

definition load_existing_products :: "store \<Rightarrow> product list" where
  "load_existing_products s = (case products_file s of None \<Rightarrow> [] | Some products \<Rightarrow> products)"

definition save_products :: "product list \<Rightarrow> store \<Rightarrow> store" where
  "save_products products s = s\<lparr>products_file := Some products, saves := Suc (saves s)\<rparr>"

text \<open>\<open>not api_key\<close>: the key is \<open>None\<close> or the empty string.\<close>

definition no_key :: "string option \<Rightarrow> bool" where
  "no_key api_key = (case api_key of None \<Rightarrow> True | Some k \<Rightarrow> k = [])"

text \<open>
  \<open>add_new_product\<close>. The environment variable \<open>OPENAI_API_KEY\<close> and the result of
  \<open>get_product_info_from_openai\<close> (\<open>None\<close> for its failure) are inputs; the scientific
  name only goes into the request. The result is the returned flag, or the exception that
  leaves the function, and the store. With \<open>is_mix\<close> set and no list of components,
  \<open>', '.join(mix_components)\<close> raises \<open>TypeError\<close>.
\<close>

definition add_new_product ::
    "string \<Rightarrow> string option \<Rightarrow> bool \<Rightarrow> string list option \<Rightarrow> string option \<Rightarrow> product option
       \<Rightarrow> store \<Rightarrow> (py_error + bool) \<times> store" where
  "add_new_product title api_key is_mix mix_components env_key generated s =
     (let api_key = (if no_key api_key then env_key else api_key)
      in if no_key api_key then (Inr False, s)
         else if is_mix \<and> mix_components = None then (Inl TypeError, s)
         else (case generated of
            None \<Rightarrow> (Inr False, s)
          | Some product_data \<Rightarrow>
             (if product_data = [] then (Inr False, s)
              else (let existing_products = load_existing_products s
                    in if list_ex (\<lambda>existing. lower (dict_get existing ''Title'' '''') = lower title)
                            existing_products
                       then (Inr False, s)
                       else (Inr True, save_products (existing_products @ [product_data]) s)))))"

subsection \<open>Parsing the response of the service\<close>































section \<open>Properties of the string operations\<close>

lemma startswith_prefix: "startswith s p = prefix p s"
  by (induction s p rule: startswith.induct) auto

lemma str_in_sublist: "str_in sub s = sublist sub s"
  by (induction s) (auto simp: startswith_prefix sublist_Cons_right)

declare pieces.simps [simp del]

text \<open>What the agreement with the ASCII tables says of the hyphen and the underscore.\<close>

lemma ascii_classes_marks:
  assumes "ascii_classes W S"
  shows "W (CHR ''_'')" "\<not> S (CHR ''_'')" "\<not> W (CHR ''-'')" "\<not> S (CHR ''-'')"
proof -
  have a: "is_ascii (CHR ''_'')" "is_ascii (CHR ''-'')"
    by (simp_all add: is_ascii_def)
  have t: "is_word (CHR ''_'')" "\<not> is_space (CHR ''_'')" "\<not> is_word (CHR ''-'')"
    "\<not> is_space (CHR ''-'')"
    by (simp_all add: is_word_def is_space_def ascii_whitespace_def ascii_lowercase_def
        ascii_uppercase_def)
  show "W (CHR ''_'')" "\<not> S (CHR ''_'')" "\<not> W (CHR ''-'')" "\<not> S (CHR ''-'')"
    using assms a t unfolding ascii_classes_def by blast+
qed

lemma ascii_classes_tables: "ascii_classes is_word is_space"
  by (simp add: ascii_classes_def)

lemma kept_not_sep:
  assumes "ascii_classes W S"
  shows "keep_char W S c \<and> \<not> is_sep S c \<longleftrightarrow> W c \<and> \<not> S c"
  using ascii_classes_marks(3) [OF assms] by (auto simp: keep_char_def is_sep_def)

lemma set_collapse_runs:
  "set (collapse_runs S b s) \<subseteq> insert (CHR ''_'') {c \<in> set s. \<not> is_sep S c}"
  by (induction s arbitrary: b) auto

lemma set_strip_underscores: "set (strip_underscores s) \<subseteq> set s"
  by (metis strip_underscores_def set_rev set_dropWhileD subsetI)

lemma clean_filename_word:
  assumes "ascii_classes W S" "c \<in> set (clean_filename W S name)"
  shows "W c"
proof -
  have "c \<in> set (collapse_runs S False (remove_special W S name))"
    using assms(2) set_strip_underscores by (auto simp: clean_filename_def)
  then have "c = CHR ''_'' \<or> (c \<in> set (remove_special W S name) \<and> \<not> is_sep S c)"
    using set_collapse_runs by fastforce
  then show "W c"
    using kept_not_sep [OF assms(1)] ascii_classes_marks(1) [OF assms(1)]
    by (auto simp: remove_special_def)
qed

lemma filter_drop_underscores:
  "filter (\<lambda>c. c \<noteq> CHR ''_'') (dropWhile is_underscore xs) = filter (\<lambda>c. c \<noteq> CHR ''_'') xs"
  by (induction xs) (auto simp: is_underscore_def)

lemma filter_strip_underscores:
  "filter (\<lambda>c. c \<noteq> CHR ''_'') (strip_underscores s) = filter (\<lambda>c. c \<noteq> CHR ''_'') s"
proof -
  have "filter (\<lambda>c. c \<noteq> CHR ''_'') (strip_underscores s)
        = rev (filter (\<lambda>c. c \<noteq> CHR ''_'') (dropWhile is_underscore (rev (dropWhile is_underscore s))))"
    by (simp add: strip_underscores_def rev_filter)
  also have "\<dots> = rev (filter (\<lambda>c. c \<noteq> CHR ''_'') (rev (dropWhile is_underscore s)))"
    by (simp add: filter_drop_underscores)
  also have "\<dots> = filter (\<lambda>c. c \<noteq> CHR ''_'') (dropWhile is_underscore s)"
    by (simp add: rev_filter)
  also have "\<dots> = filter (\<lambda>c. c \<noteq> CHR ''_'') s"
    by (simp add: filter_drop_underscores)
  finally show ?thesis .
qed

lemma filter_collapse_runs:
  "filter (\<lambda>c. c \<noteq> CHR ''_'') (collapse_runs S b s)
     = filter (\<lambda>c. \<not> is_sep S c \<and> c \<noteq> CHR ''_'') s"
  by (induction s arbitrary: b) auto

lemma clean_filename_letters:
  assumes "ascii_classes W S"
  shows "filter (\<lambda>c. c \<noteq> CHR ''_'') (clean_filename W S name)
           = filter (\<lambda>c. W c \<and> \<not> S c \<and> c \<noteq> CHR ''_'') name"
proof -
  have "filter (\<lambda>c. c \<noteq> CHR ''_'') (clean_filename W S name)
        = filter (\<lambda>c. \<not> is_sep S c \<and> c \<noteq> CHR ''_'') (filter (keep_char W S) name)"
    by (simp add: clean_filename_def filter_strip_underscores filter_collapse_runs remove_special_def)
  also have "\<dots> = filter (\<lambda>c. (keep_char W S c \<and> \<not> is_sep S c) \<and> c \<noteq> CHR ''_'') name"
    by (simp add: conj_commute conj_left_commute)
  also have "\<dots> = filter (\<lambda>c. (W c \<and> \<not> S c) \<and> c \<noteq> CHR ''_'') name"
    by (simp only: kept_not_sep [OF assms])
  finally show ?thesis
    by (simp add: conj_assoc)
qed

lemma strip_underscores_ends:
  assumes "strip_underscores s \<noteq> []"
  shows "hd (strip_underscores s) \<noteq> CHR ''_'' \<and> last (strip_underscores s) \<noteq> CHR ''_''"
proof -
  define t where "t = dropWhile is_underscore s"
  define u where "u = dropWhile is_underscore (rev t)"
  have su: "strip_underscores s = rev u"
    by (simp add: strip_underscores_def t_def u_def)
  with assms have u: "u \<noteq> []" by simp
  then have "\<not> is_underscore (hd u)"
    unfolding u_def by (rule hd_dropWhile)
  then have l: "last (rev u) \<noteq> CHR ''_''"
    using u by (simp add: last_rev is_underscore_def)
  have "rev t = takeWhile is_underscore (rev t) @ u"
    by (simp add: u_def)
  then have "t = rev u @ rev (takeWhile is_underscore (rev t))"
    by (metis rev_append rev_rev_ident)
  then have "hd t = hd (rev u)"
    using u by (metis hd_append2 rev_is_Nil_conv)
  moreover have "t \<noteq> []"
    using u u_def by auto
  then have "\<not> is_underscore (hd t)"
    unfolding t_def by (rule hd_dropWhile)
  ultimately have "hd (rev u) \<noteq> CHR ''_''"
    by (simp add: is_underscore_def)
  with l su show ?thesis by simp
qed

lemma strip_underscores_id:
  assumes "s \<noteq> []" "hd s \<noteq> CHR ''_''" "last s \<noteq> CHR ''_''"
  shows "strip_underscores s = s"
proof -
  have a: "dropWhile is_underscore s = s"
    using assms(1,2) by (cases s) (auto simp: is_underscore_def)
  have "rev s \<noteq> []" "hd (rev s) \<noteq> CHR ''_''"
    using assms(1,3) by (simp_all add: hd_rev)
  then have "dropWhile is_underscore (rev s) = rev s"
    by (cases "rev s") (auto simp: is_underscore_def)
  then show ?thesis
    by (simp add: strip_underscores_def a)
qed

lemma collapse_runs_no_double:
  "CHR ''_'' \<notin> set s \<Longrightarrow>
     \<not> sublist ''__'' (collapse_runs S b s) \<and> (b \<longrightarrow> \<not> prefix ''_'' (collapse_runs S b s))"
proof (induction s arbitrary: b)
  case Nil
  then show ?case by simp
next
  case (Cons c cs)
  then have ih: "\<And>b. \<not> sublist ''__'' (collapse_runs S b cs)"
      "\<not> prefix ''_'' (collapse_runs S True cs)"
    and c: "c \<noteq> CHR ''_''"
    by auto
  show ?case
    using ih c by (auto simp: sublist_Cons_right)
qed

lemma sublist_strip_underscores: "sublist (strip_underscores s) s"
proof -
  have "suffix (dropWhile is_underscore s) s"
    by (rule suffix_dropWhile)
  moreover have "prefix (strip_underscores s) (dropWhile is_underscore s)"
    unfolding strip_underscores_def
    by (metis suffix_dropWhile suffix_to_prefix rev_rev_ident)
  ultimately show ?thesis
    by (meson prefix_imp_sublist suffix_imp_sublist sublist_order.order_trans)
qed

lemma clean_filename_no_double:
  assumes "CHR ''_'' \<notin> set name"
  shows "\<not> str_in ''__'' (clean_filename W S name)"
proof -
  have "CHR ''_'' \<notin> set (remove_special W S name)"
    using assms by (simp add: remove_special_def)
  then have "\<not> sublist ''__'' (collapse_runs S False (remove_special W S name))"
    using collapse_runs_no_double by blast
  moreover have "sublist (clean_filename W S name) (collapse_runs S False (remove_special W S name))"
    by (simp add: clean_filename_def sublist_strip_underscores)
  ultimately show ?thesis
    unfolding str_in_sublist by (meson sublist_order.order_trans)
qed

subsection \<open>The scan and the pieces between the runs\<close>

lemma pieces_not_Nil: "pieces S s \<noteq> []"
  by (subst pieces.simps) simp

lemma str_join_Cons: "ws \<noteq> [] \<Longrightarrow> str_join sep (w # ws) = w @ sep @ str_join sep ws"
  by (cases ws) auto

lemma collapse_runs_in_run:
  "collapse_runs S True s = collapse_runs S False (dropWhile (is_sep S) s)"
  by (induction s) auto

lemma collapse_runs_word:
  "\<forall>c\<in>set w. \<not> is_sep S c \<Longrightarrow> collapse_runs S False (w @ s) = w @ collapse_runs S False s"
  by (induction w) auto

lemma collapse_runs_pieces: "collapse_runs S False s = str_join ''_'' (pieces S s)"
proof (induction S s rule: pieces.induct)
  case (1 S s)
  define w where "w = takeWhile (\<lambda>c. \<not> is_sep S c) s"
  define rest where "rest = dropWhile (\<lambda>c. \<not> is_sep S c) s"
  have s: "s = w @ rest"
    by (simp add: w_def rest_def)
  have w: "\<forall>c\<in>set w. \<not> is_sep S c"
    by (auto simp: w_def dest: set_takeWhileD)
  have split: "collapse_runs S False s = w @ collapse_runs S False rest"
    by (subst s) (rule collapse_runs_word [OF w])
  show ?case
  proof (cases "rest = []")
    case True
    then have "pieces S s = [w]"
      unfolding w_def rest_def
      by (subst pieces.simps [of S s]) (simp only: refl if_True)
    then show ?thesis
      using split True by simp
  next
    case False
    then obtain c r where cr: "rest = c # r"
      by (cases rest) auto
    have "\<not> \<not> is_sep S (hd rest)"
      using False unfolding rest_def by (rule hd_dropWhile)
    then have c: "is_sep S c"
      using cr by simp
    have p: "pieces S s = w # pieces S (dropWhile (is_sep S) rest)"
      using False unfolding w_def rest_def
      by (subst pieces.simps [of S s]) (simp only: if_False)
    have "collapse_runs S False rest = CHR ''_'' # collapse_runs S True r"
      using cr c by simp
    also have "\<dots> = CHR ''_'' # collapse_runs S False (dropWhile (is_sep S) r)"
      by (simp add: collapse_runs_in_run)
    also have "dropWhile (is_sep S) r = dropWhile (is_sep S) rest"
      using cr c by simp
    also have "collapse_runs S False (dropWhile (is_sep S) rest)
                 = str_join ''_'' (pieces S (dropWhile (is_sep S) rest))"
      using "1.IH" False by (simp add: rest_def)
    finally have "collapse_runs S False s
         = w @ ''_'' @ str_join ''_'' (pieces S (dropWhile (is_sep S) rest))"
      using split by simp
    then show ?thesis
      using p pieces_not_Nil by (simp add: str_join_Cons)
  qed
qed

lemma drop_trailing_underscores_rev:
  "drop_trailing_underscores s = rev (dropWhile is_underscore (rev s))"
proof (induction s)
  case Nil
  show ?case by simp
next
  case (Cons c cs)
  have r: "rev (c # cs) = rev cs @ [c]"
    by simp
  show ?case
  proof (cases "\<forall>x\<in>set (rev cs). is_underscore x")
    case True
    then have d: "dropWhile is_underscore (rev cs) = []"
      by simp
    have e: "dropWhile is_underscore (rev cs @ [c]) = dropWhile is_underscore [c]"
      using True by (intro dropWhile_append2) auto
    have a: "drop_trailing_underscores cs = []"
      by (simp only: Cons.IH d rev.simps)
    have "rev (dropWhile is_underscore (rev (c # cs))) = rev (dropWhile is_underscore [c])"
      by (simp only: r e)
    also have "\<dots> = (if c = CHR ''_'' then [] else [c])"
      by (simp add: is_underscore_def)
    finally have b: "rev (dropWhile is_underscore (rev (c # cs)))
                     = (if c = CHR ''_'' then [] else [c])" .
    show ?thesis
      unfolding b using a by simp
  next
    case False
    then have ne: "dropWhile is_underscore (rev cs) \<noteq> []"
      by simp
    from False obtain x where x: "x \<in> set (rev cs)" "\<not> is_underscore x"
      by blast
    have e: "dropWhile is_underscore (rev cs @ [c]) = dropWhile is_underscore (rev cs) @ [c]"
      using x by (rule dropWhile_append1)
    have a: "drop_trailing_underscores cs \<noteq> []"
      unfolding Cons.IH rev_is_Nil_conv by (rule ne)
    have "rev (dropWhile is_underscore (rev (c # cs)))
          = rev (dropWhile is_underscore (rev cs) @ [c])"
      by (simp only: r e)
    also have "\<dots> = c # rev (dropWhile is_underscore (rev cs))"
      by (simp only: rev_append rev.simps append.simps)
    also have "\<dots> = c # drop_trailing_underscores cs"
      by (simp only: Cons.IH)
    finally have b: "rev (dropWhile is_underscore (rev (c # cs)))
                     = c # drop_trailing_underscores cs" .
    show ?thesis
      unfolding b using a by simp
  qed
qed

lemma clean_filename_refines: "clean_filename W S name = spec_clean_filename W S name"
proof -
  have u: "(\<lambda>c. c = CHR ''_'') = is_underscore"
    by (auto simp: is_underscore_def)
  have k: "(\<lambda>c. W c \<or> S c \<or> c = CHR ''-'') = keep_char W S"
    by (auto simp: keep_char_def)
  show ?thesis
    unfolding clean_filename_def spec_clean_filename_def u k
    by (simp add: drop_trailing_underscores_rev strip_underscores_def collapse_runs_pieces
        remove_special_def)
qed

subsection \<open>Words joined by a run of separators\<close>

lemma hd_str_join: "ws \<noteq> [] \<Longrightarrow> hd ws \<noteq> [] \<Longrightarrow> hd (str_join sep ws) = hd (hd ws)"
  by (cases "(sep, ws)" rule: str_join.cases) auto

lemma str_join_not_Nil: "ws \<noteq> [] \<Longrightarrow> hd ws \<noteq> [] \<Longrightarrow> str_join sep ws \<noteq> []"
  by (cases "(sep, ws)" rule: str_join.cases) auto

lemma last_str_join:
  "ws \<noteq> [] \<Longrightarrow> \<forall>w\<in>set ws. w \<noteq> [] \<Longrightarrow> last (str_join sep ws) = last (last ws)"
proof (induction sep ws rule: str_join.induct)
  case (1 sep)
  then show ?case by simp
next
  case (2 sep w)
  then show ?case by simp
next
  case (3 sep w v ws)
  have "str_join sep (v # ws) \<noteq> []"
    using 3 by (intro str_join_not_Nil) auto
  then show ?case
    using 3 by simp
qed

lemma set_str_join: "set (str_join sep ws) \<subseteq> set sep \<union> \<Union> (set ` set ws)"
  by (induction sep ws rule: str_join.induct) auto

lemma pieces_str_join:
  assumes "r \<noteq> []" "\<forall>c\<in>set r. is_sep S c"
    and "ws \<noteq> []" "\<forall>w\<in>set ws. w \<noteq> [] \<and> (\<forall>c\<in>set w. \<not> is_sep S c)"
  shows "pieces S (str_join r ws) = ws"
  using assms(3,4)
proof (induction ws rule: list_nonempty_induct)
  case (single w)
  then have w: "\<forall>c\<in>set w. \<not> is_sep S c"
    by simp
  have "takeWhile (\<lambda>c. \<not> is_sep S c) w = w" "dropWhile (\<lambda>c. \<not> is_sep S c) w = []"
    using w by simp_all
  then show ?case
    by (subst pieces.simps) simp
next
  case (cons w ws)
  define x where "x = str_join r ws"
  have w: "\<forall>c\<in>set w. \<not> is_sep S c" and ih: "pieces S x = ws"
    using cons by (simp_all add: x_def)
  have hdws: "hd ws \<noteq> []" "\<forall>c\<in>set (hd ws). \<not> is_sep S c"
    using cons.hyps cons.prems by (cases ws; simp)+
  have xne: "x \<noteq> []" and hx: "\<not> is_sep S (hd x)"
    using cons.hyps hdws by (simp_all add: x_def str_join_not_Nil hd_str_join)
  obtain a r' where r: "r = a # r'" and a: "is_sep S a"
    using assms(1,2) by (cases r) auto
  have j: "str_join r (w # ws) = w @ r @ x"
    using cons.hyps by (simp add: str_join_Cons x_def)
  have t: "takeWhile (\<lambda>c. \<not> is_sep S c) (w @ r @ x) = w"
    using w a by (simp add: r)
  have d: "dropWhile (\<lambda>c. \<not> is_sep S c) (w @ r @ x) = r @ x"
    using w a by (simp add: r)
  have "dropWhile (is_sep S) (r @ x) = dropWhile (is_sep S) x"
    using assms(2) by (intro dropWhile_append2) auto
  also have "\<dots> = x"
    using xne hx by (cases x) auto
  finally have d2: "dropWhile (is_sep S) (r @ x) = x" .
  have "pieces S (w @ r @ x) = w # pieces S x"
    by (subst pieces.simps) (simp add: t d d2 assms(1))
  then show ?case
    using j ih by simp
qed

lemma clean_filename_words:
  assumes "ascii_classes W S"
    and "r \<noteq> []" "\<forall>c\<in>set r. is_sep S c"
    and "ws \<noteq> []" "\<forall>w\<in>set ws. w \<noteq> [] \<and> (\<forall>c\<in>set w. W c \<and> \<not> S c \<and> c \<noteq> CHR ''_'')"
  shows "clean_filename W S (str_join r ws) = str_join ''_'' ws"
proof -
  note m = ascii_classes_marks [OF assms(1)]
  have nonsep: "\<forall>w\<in>set ws. w \<noteq> [] \<and> (\<forall>c\<in>set w. \<not> is_sep S c)"
    using assms(5) m(3) by (auto simp: is_sep_def)
  have "\<forall>c\<in>set (str_join r ws). keep_char W S c"
    using set_str_join [of r ws] assms(3,5) by (auto simp: keep_char_def is_sep_def)
  then have kept: "remove_special W S (str_join r ws) = str_join r ws"
    by (simp add: remove_special_def)
  have c: "collapse_runs S False (str_join r ws) = str_join ''_'' ws"
    using pieces_str_join [OF assms(2,3,4) nonsep] by (simp add: collapse_runs_pieces)
  have hdws: "hd ws \<noteq> []" "hd (hd ws) \<noteq> CHR ''_''"
    using assms(4,5) by (cases ws; cases "hd ws"; simp)+
  have lastws: "last ws \<noteq> []" "last (last ws) \<noteq> CHR ''_''"
    using assms(4,5) by (metis last_in_set)+
  have ne: "\<forall>w\<in>set ws. w \<noteq> []"
    using assms(5) by blast
  have "strip_underscores (str_join ''_'' ws) = str_join ''_'' ws"
    using assms(4) hdws lastws ne
    by (intro strip_underscores_id) (simp_all add: str_join_not_Nil hd_str_join last_str_join)
  then show ?thesis
    by (simp add: clean_filename_def kept c)
qed

subsection \<open>The value on a title depends on the classes of its characters only\<close>

lemma collapse_runs_cong:
  "\<forall>c\<in>set s. S c = S' c \<Longrightarrow> collapse_runs S b s = collapse_runs S' b s"
  by (induction s arbitrary: b) (auto simp: is_sep_def)

lemma clean_filename_cong:
  assumes "\<forall>c\<in>set name. W c = W' c \<and> S c = S' c"
  shows "clean_filename W S name = clean_filename W' S' name"
proof -
  have r: "remove_special W S name = remove_special W' S' name"
    unfolding remove_special_def using assms by (intro filter_cong) (auto simp: keep_char_def)
  have "\<forall>c\<in>set (remove_special W' S' name). S c = S' c"
    using assms by (auto simp: remove_special_def)
  then have "collapse_runs S False (remove_special W' S' name)
             = collapse_runs S' False (remove_special W' S' name)"
    by (rule collapse_runs_cong)
  then show ?thesis
    by (simp add: clean_filename_def r)
qed

lemma clean_filename_ascii:
  assumes "ascii_classes W S" "\<forall>c\<in>set name. is_ascii c"
  shows "clean_filename W S name = clean_filename is_word is_space name"
  using assms by (intro clean_filename_cong) (auto simp: ascii_classes_def)

lemma clean_filename_example:
  assumes "ascii_classes W S"
  shows "clean_filename W S ''Blue Flax (Linum lewisii)'' = ''Blue_Flax_Linum_lewisii''"
proof -
  have "\<forall>c\<in>set ''Blue Flax (Linum lewisii)''. is_ascii c"
    by (simp add: is_ascii_def)
  then have "clean_filename W S ''Blue Flax (Linum lewisii)''
             = clean_filename is_word is_space ''Blue Flax (Linum lewisii)''"
    using assms by (intro clean_filename_ascii)
  also have "\<dots> = ''Blue_Flax_Linum_lewisii''"
    by code_simp
  finally show ?thesis .
qed

text \<open>
  Beyond ASCII: with \<open>\w\<close> holding the letter e acute (U+00E9) and \<open>\s\<close> holding the
  no-break space (U+00A0), as in Python, the accented letters are kept and the no-break
  space is a separator.
\<close>

lemma clean_filename_beyond_ascii:
  assumes "ascii_classes W S"
    and "W (CHR 0xE9)" "\<not> S (CHR 0xE9)" "\<not> W (CHR 0xA0)" "S (CHR 0xA0)"
  shows "clean_filename W S (''Caf'' @ [CHR 0xE9] @ '' Ros'' @ [CHR 0xE9] @ ''-Mix'')
           = ''Caf'' @ [CHR 0xE9] @ ''_Ros'' @ [CHR 0xE9] @ ''_Mix''"
    and "clean_filename W S (''Blue'' @ [CHR 0xA0] @ ''Flax'') = ''Blue_Flax''"
proof -
  have a: "W c = latin_word c \<and> S c = latin_space c" if "is_ascii c" for c
  proof -
    have "c \<noteq> CHR 0xE9" "c \<noteq> CHR 0xA0"
      using that by (auto simp: is_ascii_def)
    then show ?thesis
      using assms(1) that by (simp add: ascii_classes_def latin_word_def latin_space_def)
  qed
  have e: "W (CHR 0xE9) = latin_word (CHR 0xE9) \<and> S (CHR 0xE9) = latin_space (CHR 0xE9)"
    using assms(2,3)
    by (simp add: latin_word_def latin_space_def is_space_def ascii_whitespace_def)
  have n: "W (CHR 0xA0) = latin_word (CHR 0xA0) \<and> S (CHR 0xA0) = latin_space (CHR 0xA0)"
    using assms(4,5)
    by (simp add: latin_word_def latin_space_def is_word_def ascii_lowercase_def
        ascii_uppercase_def)
  have "list_all (\<lambda>c. is_ascii c \<or> c = CHR 0xE9)
          (''Caf'' @ [CHR 0xE9] @ '' Ros'' @ [CHR 0xE9] @ ''-Mix'')"
    by (simp add: is_ascii_def)
  then have "\<forall>c\<in>set (''Caf'' @ [CHR 0xE9] @ '' Ros'' @ [CHR 0xE9] @ ''-Mix'').
               W c = latin_word c \<and> S c = latin_space c"
    unfolding list_all_iff using a e by blast
  then have "clean_filename W S (''Caf'' @ [CHR 0xE9] @ '' Ros'' @ [CHR 0xE9] @ ''-Mix'')
        = clean_filename latin_word latin_space
            (''Caf'' @ [CHR 0xE9] @ '' Ros'' @ [CHR 0xE9] @ ''-Mix'')"
    by (rule clean_filename_cong)
  also have "\<dots> = ''Caf'' @ [CHR 0xE9] @ ''_Ros'' @ [CHR 0xE9] @ ''_Mix''"
    by code_simp
  finally show "clean_filename W S (''Caf'' @ [CHR 0xE9] @ '' Ros'' @ [CHR 0xE9] @ ''-Mix'')
           = ''Caf'' @ [CHR 0xE9] @ ''_Ros'' @ [CHR 0xE9] @ ''_Mix''" .
  have "list_all (\<lambda>c. is_ascii c \<or> c = CHR 0xA0) (''Blue'' @ [CHR 0xA0] @ ''Flax'')"
    by (simp add: is_ascii_def)
  then have "\<forall>c\<in>set (''Blue'' @ [CHR 0xA0] @ ''Flax'').
               W c = latin_word c \<and> S c = latin_space c"
    unfolding list_all_iff using a n by blast
  then have "clean_filename W S (''Blue'' @ [CHR 0xA0] @ ''Flax'')
        = clean_filename latin_word latin_space (''Blue'' @ [CHR 0xA0] @ ''Flax'')"
    by (rule clean_filename_cong)
  also have "\<dots> = ''Blue_Flax''"
    by code_simp
  finally show "clean_filename W S (''Blue'' @ [CHR 0xA0] @ ''Flax'') = ''Blue_Flax''" .
qed

section \<open>Properties of clean\_filename\<close>

text \<open>
  C6. For character classes \<open>\w\<close> and \<open>\s\<close> that are the ASCII tables on the ASCII
  characters, \<open>clean_filename\<close> maps the title "Blue Flax (Linum lewisii)" to
  "Blue_Flax_Linum_lewisii", and for every title it gives what the specification says:
  the title with all characters outside word characters, whitespace and hyphen stripped,
  every run of hyphens and whitespace collapsed to one underscore, and the underscores at
  both ends trimmed. So the result consists of word characters only; apart from underscores
  it is exactly the word characters of the title, in order; it neither starts nor ends
  with an underscore; when the title has no underscore of its own, no two underscores are
  adjacent; and words joined by any run of hyphens and whitespace come out joined by one
  underscore.
\<close>

theorem clean_filename_spec:
  assumes "ascii_classes word_class space_class"
  shows "clean_filename word_class space_class ''Blue Flax (Linum lewisii)'' = ''Blue_Flax_Linum_lewisii''
   \<and> clean_filename word_class space_class name = spec_clean_filename word_class space_class name
   \<and> (\<forall>c\<in>set (clean_filename word_class space_class name). word_class c)
   \<and> filter (\<lambda>c. c \<noteq> CHR ''_'') (clean_filename word_class space_class name)
       = filter (\<lambda>c. word_class c \<and> \<not> space_class c \<and> c \<noteq> CHR ''_'') name
   \<and> (clean_filename word_class space_class name \<noteq> [] \<longrightarrow>
        hd (clean_filename word_class space_class name) \<noteq> CHR ''_''
        \<and> last (clean_filename word_class space_class name) \<noteq> CHR ''_'')
   \<and> (CHR ''_'' \<notin> set name \<longrightarrow> \<not> str_in ''__'' (clean_filename word_class space_class name))
   \<and> (run \<noteq> [] \<and> (\<forall>c\<in>set run. is_sep space_class c) \<and> ws \<noteq> []
        \<and> (\<forall>w\<in>set ws. w \<noteq> [] \<and> (\<forall>c\<in>set w. word_class c \<and> \<not> space_class c \<and> c \<noteq> CHR ''_''))
      \<longrightarrow> clean_filename word_class space_class (str_join run ws) = str_join ''_'' ws)"
proof -
  have "\<forall>c\<in>set (clean_filename word_class space_class name). word_class c"
    using clean_filename_word [OF assms] by blast
  moreover have "clean_filename word_class space_class name \<noteq> [] \<longrightarrow>
        hd (clean_filename word_class space_class name) \<noteq> CHR ''_''
        \<and> last (clean_filename word_class space_class name) \<noteq> CHR ''_''"
    using strip_underscores_ends by (simp add: clean_filename_def)
  moreover have "run \<noteq> [] \<and> (\<forall>c\<in>set run. is_sep space_class c) \<and> ws \<noteq> []
        \<and> (\<forall>w\<in>set ws. w \<noteq> [] \<and> (\<forall>c\<in>set w. word_class c \<and> \<not> space_class c \<and> c \<noteq> CHR ''_''))
      \<longrightarrow> clean_filename word_class space_class (str_join run ws) = str_join ''_'' ws"
    using clean_filename_words [OF assms] by blast
  ultimately show ?thesis
    using clean_filename_example [OF assms] clean_filename_refines
      clean_filename_letters [OF assms] clean_filename_no_double
    by blast
qed

theorem clean_filename_spec_witness:
  "ascii_classes latin_word latin_space
   \<and> clean_filename latin_word latin_space (''Caf'' @ [CHR 0xE9] @ '' Ros'' @ [CHR 0xE9] @ ''-Mix'')
       = ''Caf'' @ [CHR 0xE9] @ ''_Ros'' @ [CHR 0xE9] @ ''_Mix''
   \<and> clean_filename latin_word latin_space (''Caf'' @ [CHR 0xE9] @ '' Ros'' @ [CHR 0xE9] @ ''-Mix'') \<noteq> []
   \<and> CHR ''_'' \<notin> set (''Caf'' @ [CHR 0xE9] @ '' Ros'' @ [CHR 0xE9] @ ''-Mix'')
   \<and> hd (clean_filename latin_word latin_space
            (''Caf'' @ [CHR 0xE9] @ '' Ros'' @ [CHR 0xE9] @ ''-Mix'')) \<noteq> CHR ''_''
   \<and> last (clean_filename latin_word latin_space
            (''Caf'' @ [CHR 0xE9] @ '' Ros'' @ [CHR 0xE9] @ ''-Mix'')) \<noteq> CHR ''_''
   \<and> \<not> str_in ''__'' (clean_filename latin_word latin_space
            (''Caf'' @ [CHR 0xE9] @ '' Ros'' @ [CHR 0xE9] @ ''-Mix''))
   \<and> list_all (is_sep latin_space) [CHR 0xA0, CHR ''-'']
   \<and> list_all (list_all (\<lambda>c. latin_word c \<and> \<not> latin_space c \<and> c \<noteq> CHR ''_''))
        [''Caf'' @ [CHR 0xE9], ''Mix'']
   \<and> str_join [CHR 0xA0, CHR ''-''] [''Caf'' @ [CHR 0xE9], ''Mix'']
       = ''Caf'' @ [CHR 0xE9, CHR 0xA0] @ ''-Mix''
   \<and> clean_filename latin_word latin_space (''Caf'' @ [CHR 0xE9, CHR 0xA0] @ ''-Mix'')
       = ''Caf'' @ [CHR 0xE9] @ ''_Mix''"
proof -
  have h: "ascii_classes latin_word latin_space"
    by (auto simp: ascii_classes_def latin_word_def latin_space_def is_ascii_def)
  have e: "clean_filename latin_word latin_space (''Caf'' @ [CHR 0xE9] @ '' Ros'' @ [CHR 0xE9] @ ''-Mix'')
           = ''Caf'' @ [CHR 0xE9] @ ''_Ros'' @ [CHR 0xE9] @ ''_Mix''"
    by code_simp
  have h1: "clean_filename latin_word latin_space
              (''Caf'' @ [CHR 0xE9] @ '' Ros'' @ [CHR 0xE9] @ ''-Mix'') \<noteq> []"
    by (simp only: e) simp
  have h2: "CHR ''_'' \<notin> set (''Caf'' @ [CHR 0xE9] @ '' Ros'' @ [CHR 0xE9] @ ''-Mix'')"
    by code_simp
  have s1: "list_all (is_sep latin_space) [CHR 0xA0, CHR ''-'']"
    by code_simp
  have s2: "list_all (list_all (\<lambda>c. latin_word c \<and> \<not> latin_space c \<and> c \<noteq> CHR ''_''))
              [''Caf'' @ [CHR 0xE9], ''Mix'']"
    by code_simp
  have h3: "[CHR 0xA0, CHR ''-''] \<noteq> [] \<and> (\<forall>c\<in>set [CHR 0xA0, CHR ''-'']. is_sep latin_space c)
        \<and> [''Caf'' @ [CHR 0xE9], ''Mix''] \<noteq> []
        \<and> (\<forall>w\<in>set [''Caf'' @ [CHR 0xE9], ''Mix'']. w \<noteq> []
              \<and> (\<forall>c\<in>set w. latin_word c \<and> \<not> latin_space c \<and> c \<noteq> CHR ''_''))"
    using s1 s2 unfolding list_all_iff by auto
  have j: "str_join [CHR 0xA0, CHR ''-''] [''Caf'' @ [CHR 0xE9], ''Mix'']
           = ''Caf'' @ [CHR 0xE9, CHR 0xA0] @ ''-Mix''"
    by simp
  have j2: "str_join ''_'' [''Caf'' @ [CHR 0xE9], ''Mix''] = ''Caf'' @ [CHR 0xE9] @ ''_Mix''"
    by simp
  note t = clean_filename_spec [OF h,
      of "''Caf'' @ [CHR 0xE9] @ '' Ros'' @ [CHR 0xE9] @ ''-Mix''" "[CHR 0xA0, CHR ''-'']"
         "[''Caf'' @ [CHR 0xE9], ''Mix'']"]
  note ends = t [THEN conjunct2, THEN conjunct2, THEN conjunct2, THEN conjunct2, THEN conjunct1,
                 THEN mp, OF h1]
  note single = t [THEN conjunct2, THEN conjunct2, THEN conjunct2, THEN conjunct2, THEN conjunct2,
                   THEN conjunct1, THEN mp, OF h2]
  note words = t [THEN conjunct2, THEN conjunct2, THEN conjunct2, THEN conjunct2, THEN conjunct2,
                  THEN conjunct2, THEN mp, OF h3]
  have w: "clean_filename latin_word latin_space (''Caf'' @ [CHR 0xE9, CHR 0xA0] @ ''-Mix'')
           = ''Caf'' @ [CHR 0xE9] @ ''_Mix''"
    using words unfolding j j2 .
  show ?thesis
    using h e h1 h2 ends single s1 s2 j w by (elim conjE, intro conjI) assumption+
qed

section \<open>Properties of the field loop\<close>

lemma split_from_Nil: "split_from cur s = [] \<longleftrightarrow> cur = [] \<and> (\<forall>c\<in>set s. is_space c)"
  by (induction s arbitrary: cur) auto

lemma last_token_Some: "\<exists>c\<in>set key. \<not> is_space c \<Longrightarrow> \<exists>n. last_token key = Some n"
  using split_from_Nil [of "[]" key]
  by (auto simp: last_token_def py_split_def split: list.splits)

lemma is_space_lower_char: "is_space (lower_char c) = is_space c"
  by (auto simp: lower_char_def is_space_def ascii_whitespace_def ascii_uppercase_def ascii_lowercase_def)

lemma str_in_lower_nonspace:
  assumes "str_in (a # sub) (lower key)" and "\<not> is_space a"
  shows "\<exists>c\<in>set key. \<not> is_space c"
proof -
  have "set (a # sub) \<subseteq> set (lower key)"
    using assms(1) unfolding str_in_sublist by (rule set_mono_sublist)
  then obtain c where "c \<in> set key" "a = lower_char c"
    by (auto simp: lower_def)
  with assms(2) show ?thesis
    using is_space_lower_char by auto
qed

lemma startswith_nonspace:
  assumes "startswith key (a # p)" and "\<not> is_space a"
  shows "\<exists>c\<in>set key. \<not> is_space c"
  using assms by (cases key) auto

lemma not_space_letters:
  "\<not> is_space (CHR ''p'')" "\<not> is_space (CHR ''w'')" "\<not> is_space (CHR ''F'')"
  by (simp_all add: is_space_def ascii_whitespace_def)

lemma later_rules_total: "\<exists>st'. later_rules key val formatted_key st = Inr st'"
proof -
  have p: "str_in ''planting guide step'' (lower key) \<Longrightarrow> \<exists>n. last_token key = Some n"
    using str_in_lower_nonspace not_space_letters(1) last_token_Some by blast
  have f: "startswith key ''FAQ '' \<Longrightarrow> \<exists>n. last_token key = Some n"
    using startswith_nonspace not_space_letters(3) last_token_Some by blast
  show ?thesis
    using p f by (cases st) (auto simp: later_rules_def)
qed

lemma why_chose_section_total:
  assumes "str_in ''why chose this product title'' (lower key)"
  shows "\<exists>st'. why_chose_section product_data key val st = Inr st'"
proof -
  obtain n where "last_token key = Some n"
    using assms str_in_lower_nonspace not_space_letters(2) last_token_Some by blast
  then show ?thesis
    by (cases st) (auto simp: why_chose_section_def Let_def split: option.splits)
qed

lemma table2_rules_total: "\<exists>st'. table2_rules product_data key val formatted_key st = Inr st'"
  using later_rules_total by (cases st) (auto simp: table2_rules_def)

lemma process_field_total: "\<exists>st'. process_field product_data kv st = Inr st'"
  using why_chose_section_total table2_rules_total
  by (cases kv; cases st) (auto simp: process_field_def split: option.splits)

lemma process_fields_total: "\<exists>st'. process_fields product_data kvs st = Inr st'"
proof (induction kvs arbitrary: st)
  case Nil
  show ?case by simp
next
  case (Cons kv kvs)
  obtain st1 where "process_field product_data kv st = Inr st1"
    using process_field_total by blast
  then show ?case
    using Cons.IH [of st1] by simp
qed

lemma table1_not_skipped: "key \<in> set table1_fields \<Longrightarrow> format_field_name key \<noteq> None"
  by (auto simp: table1_fields_def format_field_name_def skip_fields_def)

lemma table2_not_table1: "key \<in> set table2_fields \<Longrightarrow> key \<notin> set table1_fields"
  by (auto simp: table1_fields_def table2_fields_def)

lemma content_key_not_table1: "''Why chose this product '' @ n \<notin> set table1_fields"
  by (simp add: table1_fields_def)

lemma process_field_table1:
  assumes "key \<in> set table1_fields" "val \<noteq> []" "key \<notin> processed"
  shows "process_field pd (key, val) (doc, processed)
         = Inr (emit_table ''Growing Conditions'' table1_fields pd (doc, processed))"
  using assms table1_not_skipped [of key] by (auto simp: process_field_def)

lemma process_field_skip:
  "val = [] \<or> key \<in> processed \<Longrightarrow> process_field pd (key, val) (doc, processed) = Inr (doc, processed)"
  by (auto simp: process_field_def)

lemma later_rules_effect:
  assumes "later_rules key val formatted_key (doc, processed) = Inr (doc', processed')"
    and "key \<notin> processed"
  shows "processed' = insert key processed \<and>
         (doc' = doc \<or> (\<exists>l. doc' = doc @ [Heading 2 val] \<or> doc' = doc @ [LabeledParagraph l val]
            \<or> doc' = doc @ [SteppedItem l val] \<or> doc' = doc @ [FaqItem l val]))"
  using assms
  by (auto simp: later_rules_def remaining_field_def split: if_splits option.splits)

lemma process_field_effect:
  assumes "process_field pd (key, val) (doc, processed) = Inr (doc', processed')"
  obtains
    (skip) "doc' = doc" "processed' = processed"
      "val = [] \<or> key \<in> processed \<or> key \<notin> set table1_fields"
  | (mark) "doc' = doc" "processed' = insert key processed" "val \<noteq> []"
      "key \<notin> processed" "key \<notin> set table1_fields"
  | (table1) "key \<in> set table1_fields" "val \<noteq> []" "key \<notin> processed"
      "(doc', processed') = emit_table ''Growing Conditions'' table1_fields pd (doc, processed)"
  | (table2) "key \<in> set table2_fields" "key \<notin> set table1_fields" "val \<noteq> []" "key \<notin> processed"
      "why_chose_done pd processed"
      "(doc', processed') = emit_table ''Plant Characteristics'' table2_fields pd (doc, processed)"
  | (single) l where "processed' = insert key processed" "val \<noteq> []"
      "key \<notin> processed" "key \<notin> set table1_fields"
      "doc' = doc @ [Heading 2 val] \<or> doc' = doc @ [LabeledParagraph l val]
         \<or> doc' = doc @ [SteppedItem l val] \<or> doc' = doc @ [FaqItem l val]"
  | (paired) n content where "last_token key = Some n"
      "truthy_value pd (''Why chose this product '' @ n) = Some content"
      "doc' = doc @ [Heading 3 val, Paragraph content]"
      "processed' = insert (''Why chose this product '' @ n) (insert key processed)"
      "val \<noteq> []" "key \<notin> processed" "key \<notin> set table1_fields"
proof (cases "val = [] \<or> key \<in> processed")
  case True
  then show ?thesis
    using assms skip by (auto simp: process_field_def)
next
  case False
  then have v: "val \<noteq> []" and k: "key \<notin> processed" by auto
  show ?thesis
  proof (cases "format_field_name key")
    case None
    then have "key \<notin> set table1_fields"
      using table1_not_skipped by blast
    then show ?thesis
      using assms v k None mark by (auto simp: process_field_def)
  next
    case (Some fk)
    show ?thesis
    proof (cases "key \<in> set table1_fields")
      case True
      then show ?thesis
        using assms v k process_field_table1 [OF True v k, of pd doc] table1 by auto
    next
      case nt1: False
      show ?thesis
      proof (cases "key \<in> set [''SKU'', ''Scientific Name / mix %'']
                    \<or> str_in ''description'' (lower key) \<or> str_in ''what is'' (lower key)")
        case True
        then have "processed' = insert key processed \<and>
            (doc' = doc @ [Heading 2 val] \<or> doc' = doc @ [LabeledParagraph fk val])"
          using assms v k Some nt1
          by (auto simp: process_field_def split: if_splits)
        then show ?thesis
          using single [of fk] v k nt1 by blast
      next
        case nd: False
        show ?thesis
        proof (cases "str_in ''why chose this product title'' (lower key)")
          case True
          then have w: "why_chose_section pd key val (doc, processed) = Inr (doc', processed')"
            using assms v k Some nt1 nd by (auto simp: process_field_def)
          then show ?thesis
            using skip paired v k nt1
            by (auto simp: why_chose_section_def Let_def split: option.splits)
        next
          case nw: False
          then have t: "table2_rules pd key val fk (doc, processed) = Inr (doc', processed')"
            using assms v k Some nt1 nd by (auto simp: process_field_def)
          show ?thesis
          proof (cases "key \<in> set table2_fields \<and> why_chose_done pd processed")
            case True
            then show ?thesis
              using t k v nt1 table2 by (auto simp: table2_rules_def)
          next
            case False
            then have "later_rules key val fk (doc, processed) = Inr (doc', processed')"
              using t k by (auto simp: table2_rules_def split: if_splits)
            from later_rules_effect [OF this k] show ?thesis
              using mark single v k nt1 by blast
          qed
        qed
      qed
    qed
  qed
qed

lemma collect_fields_iff:
  "(k, v) \<in> set (collect_fields fs pd) \<longleftrightarrow> k \<in> set fs \<and> truthy_value pd k = Some v"
  by (induction fs) (auto split: option.splits)

lemma collect_fields_keys: "map fst (collect_fields fs pd) = filter (\<lambda>k. truthy_value pd k \<noteq> None) fs"
  by (induction fs) (auto split: option.splits)

lemma truthy_value_iff:
  "distinct (map fst pd) \<Longrightarrow> truthy_value pd k = Some v \<longleftrightarrow> (k, v) \<in> set pd \<and> v \<noteq> []"
proof -
  assume d: "distinct (map fst pd)"
  have "map_of pd k = Some v \<longleftrightarrow> (k, v) \<in> set pd"
    using d by (rule map_of_eq_Some_iff)
  then show ?thesis
    by (cases "map_of pd k") (auto simp: truthy_value_def)
qed

lemma truthy_value_nonempty: "truthy_value pd k = Some v \<Longrightarrow> v \<noteq> []"
  by (auto simp: truthy_value_def split: option.splits if_splits)

lemma collect_fields_subseq: "subseq (map fst (collect_fields fs pd)) fs"
  by (simp add: collect_fields_keys)

lemma collect_fields_length:
  assumes "distinct fs"
  shows "length (collect_fields fs pd) = card {k \<in> set fs. truthy_value pd k \<noteq> None}"
proof -
  have "length (collect_fields fs pd) = length (map fst (collect_fields fs pd))"
    by simp
  also have "\<dots> = length (filter (\<lambda>k. truthy_value pd k \<noteq> None) fs)"
    by (simp only: collect_fields_keys)
  also have "\<dots> = card (set (filter (\<lambda>k. truthy_value pd k \<noteq> None) fs))"
    using assms distinct_card [of "filter (\<lambda>k. truthy_value pd k \<noteq> None) fs"] by simp
  also have "set (filter (\<lambda>k. truthy_value pd k \<noteq> None) fs) = {k \<in> set fs. truthy_value pd k \<noteq> None}"
    by auto
  finally show ?thesis .
qed

lemma collect_fields_perm:
  assumes "distinct (map fst pd)" "distinct (map fst pd')" "set pd = set pd'"
  shows "collect_fields fs pd = collect_fields fs pd'"
proof -
  have "map_of pd = map_of pd'"
    using assms by (metis map_of_inject_set)
  then have "truthy_value pd = truthy_value pd'"
    by (auto simp: truthy_value_def fun_eq_iff)
  then show ?thesis
    by (induction fs) (auto split: option.splits)
qed

lemma emit_table_eq:
  "emit_table title fs pd (doc, processed) =
     ((if collect_fields fs pd \<noteq> [] then doc @ [Table title (collect_fields fs pd)] else doc),
      processed \<union> fst ` set (collect_fields fs pd))"
  by (simp add: emit_table_def Let_def)

lemma distinct_table_fields: "distinct table1_fields" "distinct table2_fields"
  by (simp_all add: table1_fields_def table2_fields_def)

lemma process_fields_invariant:
  assumes "process_fields pd kvs st = Inr st'"
    and "I st"
    and "\<And>kv s s'. kv \<in> set kvs \<Longrightarrow> I s \<Longrightarrow> process_field pd kv s = Inr s' \<Longrightarrow> I s'"
  shows "I st'"
  using assms
proof (induction kvs arbitrary: st)
  case Nil
  then show ?case by simp
next
  case (Cons kv kvs)
  from Cons.prems(1) obtain s1 where s1: "process_field pd kv st = Inr s1"
    and rest: "process_fields pd kvs s1 = Inr st'"
    by (auto split: sum.splits)
  have "I s1"
    using Cons.prems(2,3) s1 by (meson list.set_intros(1))
  then show ?case
    using Cons.IH [OF rest] Cons.prems(3) by (meson list.set_intros(2))
qed

lemma process_field_new_table:
  assumes "process_field pd (key, val) (doc, processed) = Inr (doc', processed')"
    and "Table title rows \<in> set doc'"
  shows "Table title rows \<in> set doc
    \<or> (title = ''Growing Conditions'' \<and> rows = collect_fields table1_fields pd)
    \<or> (title = ''Plant Characteristics'' \<and> rows = collect_fields table2_fields pd)"
  using assms
  by (cases rule: process_field_effect) (auto simp: emit_table_eq split: if_splits)

lemma tables_ok_step:
  assumes "tables_ok pd s" "process_field pd kv s = Inr s'"
  shows "tables_ok pd s'"
proof -
  obtain key val doc processed doc' processed'
    where [simp]: "kv = (key, val)" "s = (doc, processed)" "s' = (doc', processed')"
    by (cases kv; cases s; cases s') auto
  from assms(2) have "process_field pd (key, val) (doc, processed) = Inr (doc', processed')"
    by simp
  from process_field_new_table [OF this] show ?thesis
    using assms(1) unfolding tables_ok_def by (metis \<open>s = (doc, processed)\<close> \<open>s' = (doc', processed')\<close> fst_conv)
qed

lemma tables_ok_build:
  assumes "create_product_document pd = Inr st"
  shows "tables_ok pd st"
proof -
  have "tables_ok pd (initial_state pd)"
    by (simp add: tables_ok_def initial_state_def)
  then show ?thesis
    using assms tables_ok_step process_fields_invariant [where I = "tables_ok pd"]
    unfolding create_product_document_def by blast
qed

lemma collect_fields_values: "[] \<notin> snd ` set (collect_fields fs pd)"
  using truthy_value_nonempty by (fastforce simp: collect_fields_iff)

lemma collect_fields_truthy: "k \<in> fst ` set (collect_fields fs pd) \<Longrightarrow> truthy_value pd k \<noteq> None"
  by (auto simp: collect_fields_iff)

lemma values_ok_step:
  assumes "values_ok pd s" "process_field pd kv s = Inr s'" "kv \<in> set pd" "distinct (map fst pd)"
  shows "values_ok pd s'"
proof -
  obtain key val doc processed doc' processed'
    where [simp]: "kv = (key, val)" "s = (doc, processed)" "s' = (doc', processed')"
    by (cases kv; cases s; cases s') auto
  have tv: "val \<noteq> [] \<Longrightarrow> truthy_value pd key \<noteq> None"
    using assms(3,4) truthy_value_iff [of pd key val] by simp
  from assms(1) have ne: "doc \<noteq> []"
    by (simp add: values_ok_def)
  from assms(2) have "process_field pd (key, val) (doc, processed) = Inr (doc', processed')"
    by simp
  then show ?thesis
    using assms(1) tv ne
    by (cases rule: process_field_effect)
       (auto simp: values_ok_def emit_table_eq collect_fields_iff split: if_splits
             dest: truthy_value_nonempty)
qed

lemma values_ok_build:
  assumes "create_product_document pd = Inr st" "distinct (map fst pd)"
  shows "values_ok pd st"
proof -
  have "values_ok pd (initial_state pd)"
    by (simp add: values_ok_def initial_state_def)
  then show ?thesis
    using assms values_ok_step process_fields_invariant [where I = "values_ok pd" and kvs = pd]
    unfolding create_product_document_def by blast
qed

lemma gc_emitted_step:
  assumes "gc_emitted pd s" "process_field pd kv s = Inr s'" "kv \<in> set pd" "distinct (map fst pd)"
  shows "gc_emitted pd s'"
proof -
  obtain key val doc processed doc' processed'
    where [simp]: "kv = (key, val)" "s = (doc, processed)" "s' = (doc', processed')"
    by (cases kv; cases s; cases s') auto
  have tv: "val \<noteq> [] \<Longrightarrow> truthy_value pd key = Some val"
    using assms(3,4) truthy_value_iff [of pd key val] by simp
  have inp: "key \<in> set table1_fields \<Longrightarrow> val \<noteq> [] \<Longrightarrow> key \<in> processed"
  proof -
    assume "key \<in> set table1_fields" "val \<noteq> []"
    then have "(key, val) \<in> set (collect_fields table1_fields pd)"
      using tv by (simp add: collect_fields_iff)
    then have "key \<in> fst ` set (collect_fields table1_fields pd)"
      by force
    then show "key \<in> processed"
      using assms(1) by (auto simp: gc_emitted_def)
  qed
  from assms(2) have "process_field pd (key, val) (doc, processed) = Inr (doc', processed')"
    by simp
  then show ?thesis
    using assms(1) inp
    by (cases rule: process_field_effect)
       (auto simp: gc_emitted_def emit_table_eq split: if_splits)
qed

lemma gc_pending_step:
  assumes "gc_pending s" "process_field pd (key, val) s = Inr s'" "(key, val) \<in> set pd"
    "distinct (map fst pd)"
  shows "if key \<in> set table1_fields \<and> val \<noteq> [] then gc_emitted pd s' else gc_pending s'"
proof -
  obtain doc processed doc' processed'
    where [simp]: "s = (doc, processed)" "s' = (doc', processed')"
    by (cases s; cases s') auto
  have tv: "val \<noteq> [] \<Longrightarrow> truthy_value pd key = Some val"
    using assms(3,4) truthy_value_iff [of pd key val] by simp
  have ne: "key \<in> set table1_fields \<Longrightarrow> val \<noteq> [] \<Longrightarrow> collect_fields table1_fields pd \<noteq> []"
  proof -
    assume "key \<in> set table1_fields" "val \<noteq> []"
    then have "(key, val) \<in> set (collect_fields table1_fields pd)"
      using tv by (simp add: collect_fields_iff)
    then show ?thesis by auto
  qed
  have t2: "fst ` set (collect_fields table2_fields pd) \<inter> set table1_fields = {}"
    using table2_not_table1 by (auto simp: collect_fields_iff)
  have np: "key \<in> set table1_fields \<Longrightarrow> key \<notin> processed"
    using assms(1) by (auto simp: gc_pending_def)
  from assms(2) have "process_field pd (key, val) (doc, processed) = Inr (doc', processed')"
    by simp
  then show ?thesis
  proof (cases rule: process_field_effect)
    case skip
    then show ?thesis using assms(1) np by auto
  next
    case mark
    then show ?thesis using assms(1) by (auto simp: gc_pending_def)
  next
    case table1
    then show ?thesis
      using assms(1) ne by (auto simp: gc_pending_def gc_emitted_def emit_table_eq)
  next
    case table2
    then show ?thesis
      using assms(1) t2 by (auto simp: gc_pending_def emit_table_eq split: if_splits)
  next
    case (single l)
    then show ?thesis using assms(1) by (auto simp: gc_pending_def)
  next
    case (paired n content)
    then show ?thesis
      using assms(1) content_key_not_table1 [of n] by (auto simp: gc_pending_def)
  qed
qed

lemma gc_emitted_fold:
  assumes "process_fields pd kvs st = Inr st'" "gc_emitted pd st" "set kvs \<subseteq> set pd"
    "distinct (map fst pd)"
  shows "gc_emitted pd st'"
  using assms(1,2) gc_emitted_step assms(3,4)
    process_fields_invariant [where I = "gc_emitted pd" and kvs = kvs and pd = pd and st = st and st' = st']
  by blast

lemma gc_pending_fold:
  assumes "process_fields pd kvs st = Inr st'" "gc_pending st" "set kvs \<subseteq> set pd"
    "distinct (map fst pd)"
  shows "if \<exists>(k, v)\<in>set kvs. k \<in> set table1_fields \<and> v \<noteq> [] then gc_emitted pd st'
         else gc_pending st'"
  using assms
proof (induction kvs arbitrary: st)
  case Nil
  then show ?case by simp
next
  case (Cons kv kvs)
  obtain key val where kv: "kv = (key, val)" by (cases kv)
  from Cons.prems(1) obtain s1 where s1: "process_field pd (key, val) st = Inr s1"
    and rest: "process_fields pd kvs s1 = Inr st'"
    by (auto simp: kv split: sum.splits)
  have mem: "(key, val) \<in> set pd" and sub: "set kvs \<subseteq> set pd"
    using Cons.prems(3) kv by auto
  note step = gc_pending_step [OF Cons.prems(2) s1 mem Cons.prems(4)]
  show ?case
  proof (cases "key \<in> set table1_fields \<and> val \<noteq> []")
    case True
    then have "gc_emitted pd s1" using step by simp
    then have "gc_emitted pd st'"
      using gc_emitted_fold [OF rest _ sub Cons.prems(4)] by simp
    then show ?thesis using True kv by auto
  next
    case False
    then have "gc_pending s1" using step by auto
    from Cons.IH [OF rest this sub Cons.prems(4)] show ?thesis
      using False kv by auto
  qed
qed

lemma collect_fields_Nil_iff:
  assumes "distinct (map fst pd)"
  shows "collect_fields fs pd \<noteq> [] \<longleftrightarrow> (\<exists>(k, v)\<in>set pd. k \<in> set fs \<and> v \<noteq> [])"
proof -
  have "collect_fields fs pd \<noteq> [] \<longleftrightarrow> (\<exists>k v. (k, v) \<in> set (collect_fields fs pd))"
    by (cases "collect_fields fs pd") auto
  then show ?thesis
    using assms by (auto simp: collect_fields_iff truthy_value_iff)
qed

lemma gc_build:
  assumes "create_product_document pd = Inr (doc, processed)" "distinct (map fst pd)"
  shows "filter (table_titled ''Growing Conditions'') doc
           = (if collect_fields table1_fields pd = [] then []
              else [Table ''Growing Conditions'' (collect_fields table1_fields pd)])
         \<and> fst ` set (collect_fields table1_fields pd) \<subseteq> processed"
proof -
  have "gc_pending (initial_state pd)"
    by (simp add: gc_pending_def initial_state_def table1_fields_def)
  from gc_pending_fold [OF assms(1) [unfolded create_product_document_def] this _ assms(2)]
  have "if collect_fields table1_fields pd \<noteq> [] then gc_emitted pd (doc, processed)
        else gc_pending (doc, processed)"
    using collect_fields_Nil_iff [OF assms(2)] by auto
  then show ?thesis
    by (auto simp: gc_emitted_def gc_pending_def split: if_splits)
qed

lemma table2_plain:
  "list_all (\<lambda>k. k \<notin> set skip_fields \<and> k \<notin> set table1_fields
      \<and> k \<notin> set [''SKU'', ''Scientific Name / mix %'']
      \<and> \<not> str_in ''description'' (lower k) \<and> \<not> str_in ''what is'' (lower k)
      \<and> \<not> str_in ''why chose this product title'' (lower k)
      \<and> \<not> str_in ''planting guide step'' (lower k) \<and> \<not> startswith k ''FAQ ''
      \<and> \<not> str_in ''why chose this product'' (lower k) \<and> \<not> is_title_field k) table2_fields"
  by code_simp

lemma table2_field_later:
  assumes "key \<in> set table2_fields" "val \<noteq> []" "key \<notin> processed"
  shows "\<exists>label. format_field_name key = Some label
      \<and> process_field pd (key, val) (doc, processed) = table2_rules pd key val label (doc, processed)
      \<and> later_rules key val label (doc, processed)
          = Inr (doc @ [LabeledParagraph label val], insert key processed)"
proof -
  from table2_plain assms(1) have k: "key \<notin> set skip_fields" "key \<notin> set table1_fields"
      "key \<notin> set [''SKU'', ''Scientific Name / mix %'']"
      "\<not> str_in ''description'' (lower key)" "\<not> str_in ''what is'' (lower key)"
      "\<not> str_in ''why chose this product title'' (lower key)"
      "\<not> str_in ''planting guide step'' (lower key)" "\<not> startswith key ''FAQ ''"
      "\<not> str_in ''why chose this product'' (lower key)" "\<not> is_title_field key"
    unfolding list_all_iff by blast+
  obtain label where l: "format_field_name key = Some label"
    using k(1) by (simp add: format_field_name_def)
  have "process_field pd (key, val) (doc, processed) = table2_rules pd key val label (doc, processed)"
    using assms(2,3) k(2-6) l by (simp add: process_field_def)
  moreover have "later_rules key val label (doc, processed)
          = Inr (doc @ [LabeledParagraph label val], insert key processed)"
    using assms(3) k(7-10) by (simp add: later_rules_def remaining_field_def)
  ultimately show ?thesis
    using l by blast
qed






section \<open>The field loop: rendering and consumption\<close>

text \<open>
  C1. A field can be rendered twice. A Plant Characteristics field met while a "Why chose"
  title is still unconsumed is rendered by the last rule as a labelled paragraph and marked
  consumed; once the gate is open, the collection loop of the table takes every present
  member of the list, consumed or not, so the same field is rendered again as a table row.
  Here \<open>Color\<close> is rendered as a paragraph and as a row of the table.
\<close>

theorem field_rendered_twice:
  "create_product_document
     [(''Title'', ''Blue Flax''), (''Color'', ''Blue''), (''Why chose this product Title 1'', ''Hardy''),
      (''Why chose this product 1'', ''Grows anywhere''), (''Water'', ''Low'')]
   = Inr ([Title ''Blue Flax'',
           LabeledParagraph ''Color'' ''Blue'',
           Heading 3 ''Hardy'',
           Paragraph ''Grows anywhere'',
           Table ''Plant Characteristics'' [(''Color'', ''Blue''), (''Water'', ''Low'')]],
          {''Title'', ''Color'', ''Why chose this product Title 1'', ''Why chose this product 1'',
           ''Water''})"
  by code_simp

text \<open>
  C2, as the code has it. For a Plant Characteristics field with a non-empty value that is
  not yet consumed: the gate is open exactly when every title
  "Why chose this product Title i" (i from 1 to 5) that exists in the record is consumed.
  With the gate closed the field is not deferred: control falls through to the last rule,
  which emits one labelled paragraph for the field and marks it consumed. With the gate open
  the step is the group emission of the table. In a record without any of the five titles
  the gate is open and the Plant Characteristics table is emitted, with the field in it.
\<close>

theorem plant_characteristics_gate:
  assumes "key \<in> set table2_fields" "val \<noteq> []" "key \<notin> processed"
  shows "(why_chose_done pd processed
            \<longleftrightarrow> (\<forall>t\<in>set why_chose_title_keys. map_of pd t \<noteq> None \<longrightarrow> t \<in> processed))
       \<and> (\<not> why_chose_done pd processed \<longrightarrow>
            (\<exists>label. format_field_name key = Some label
               \<and> process_field pd (key, val) (doc, processed)
                   = Inr (doc @ [LabeledParagraph label val], insert key processed)))
       \<and> (why_chose_done pd processed \<longrightarrow>
            process_field pd (key, val) (doc, processed)
              = Inr (emit_table ''Plant Characteristics'' table2_fields pd (doc, processed)))
       \<and> ((\<forall>t\<in>set why_chose_title_keys. map_of pd t = None) \<and> map_of pd key = Some val \<longrightarrow>
            (key, val) \<in> set (collect_fields table2_fields pd)
            \<and> process_field pd (key, val) (doc, processed)
                = Inr (doc @ [Table ''Plant Characteristics'' (collect_fields table2_fields pd)],
                       processed \<union> fst ` set (collect_fields table2_fields pd)))"
proof -
  obtain label where l: "format_field_name key = Some label"
    and p: "process_field pd (key, val) (doc, processed) = table2_rules pd key val label (doc, processed)"
    and r: "later_rules key val label (doc, processed)
          = Inr (doc @ [LabeledParagraph label val], insert key processed)"
    using table2_field_later [OF assms] by blast
  have g: "why_chose_done pd processed
            \<longleftrightarrow> (\<forall>t\<in>set why_chose_title_keys. map_of pd t \<noteq> None \<longrightarrow> t \<in> processed)"
    by (auto simp: why_chose_done_def list_all_iff)
  have closed: "\<not> why_chose_done pd processed \<Longrightarrow>
      process_field pd (key, val) (doc, processed)
        = Inr (doc @ [LabeledParagraph label val], insert key processed)"
    using p r assms by (simp add: table2_rules_def)
  have "open": "why_chose_done pd processed \<Longrightarrow>
      process_field pd (key, val) (doc, processed)
        = Inr (emit_table ''Plant Characteristics'' table2_fields pd (doc, processed))"
    using p assms by (simp add: table2_rules_def)
  have absent: "(key, val) \<in> set (collect_fields table2_fields pd)
            \<and> process_field pd (key, val) (doc, processed)
                = Inr (doc @ [Table ''Plant Characteristics'' (collect_fields table2_fields pd)],
                       processed \<union> fst ` set (collect_fields table2_fields pd))"
    if a: "\<forall>t\<in>set why_chose_title_keys. map_of pd t = None" and m: "map_of pd key = Some val"
  proof -
    have d: "why_chose_done pd processed"
      using a g by simp
    have "truthy_value pd key = Some val"
      using m assms(2) by (simp add: truthy_value_def)
    then have c: "(key, val) \<in> set (collect_fields table2_fields pd)"
      using assms(1) by (simp add: collect_fields_iff)
    then have "collect_fields table2_fields pd \<noteq> []"
      by auto
    then show ?thesis
      using "open" [OF d] c by (simp add: emit_table_eq)
  qed
  show ?thesis
    using g l closed "open" absent by blast
qed

theorem plant_characteristics_gate_witness:
  "''Color'' \<in> set table2_fields \<and> ''Blue'' \<noteq> [] \<and> ''Color'' \<notin> {''Title''}
   \<and> \<not> why_chose_done
         [(''Color'', ''Blue''), (''Why chose this product Title 1'', ''Hardy''),
          (''Why chose this product 1'', ''Grows anywhere'')] {''Title''}
   \<and> process_field
        [(''Color'', ''Blue''), (''Why chose this product Title 1'', ''Hardy''),
         (''Why chose this product 1'', ''Grows anywhere'')]
        (''Color'', ''Blue'') ([Title ''Unknown Product''], {''Title''})
      = Inr ([Title ''Unknown Product'', LabeledParagraph ''Color'' ''Blue''],
             insert ''Color'' {''Title''})
   \<and> why_chose_done [(''Color'', ''Blue''), (''Water'', ''Low'')] {''Title''}
   \<and> map_of [(''Color'', ''Blue''), (''Water'', ''Low'')] ''Color'' = Some ''Blue''
   \<and> process_field [(''Color'', ''Blue''), (''Water'', ''Low'')]
        (''Color'', ''Blue'') ([Title ''Unknown Product''], {''Title''})
      = Inr ([Title ''Unknown Product'',
              Table ''Plant Characteristics'' [(''Color'', ''Blue''), (''Water'', ''Low'')]],
             {''Title''} \<union> fst ` set [(''Color'', ''Blue''), (''Water'', ''Low'')])"
proof -
  have h1: "''Color'' \<in> set table2_fields" by code_simp
  have h2: "''Blue'' \<noteq> []" by simp
  have h3: "''Color'' \<notin> {''Title''}" by simp
  have c: "\<not> why_chose_done
         [(''Color'', ''Blue''), (''Why chose this product Title 1'', ''Hardy''),
          (''Why chose this product 1'', ''Grows anywhere'')] {''Title''}"
    by code_simp
  have f: "format_field_name ''Color'' = Some ''Color''" by code_simp
  have a: "\<forall>t\<in>set why_chose_title_keys. map_of [(''Color'', ''Blue''), (''Water'', ''Low'')] t = None"
    by code_simp
  have m: "map_of [(''Color'', ''Blue''), (''Water'', ''Low'')] ''Color'' = Some ''Blue''"
    by simp
  have e: "collect_fields table2_fields [(''Color'', ''Blue''), (''Water'', ''Low'')]
            = [(''Color'', ''Blue''), (''Water'', ''Low'')]"
    by code_simp
  have d: "why_chose_done [(''Color'', ''Blue''), (''Water'', ''Low'')] {''Title''}"
    using plant_characteristics_gate [OF h1 h2 h3,
        of "[(''Color'', ''Blue''), (''Water'', ''Low'')]" "[Title ''Unknown Product'']"] a
    by simp
  have closed: "process_field
        [(''Color'', ''Blue''), (''Why chose this product Title 1'', ''Hardy''),
         (''Why chose this product 1'', ''Grows anywhere'')]
        (''Color'', ''Blue'') ([Title ''Unknown Product''], {''Title''})
      = Inr ([Title ''Unknown Product'', LabeledParagraph ''Color'' ''Blue''],
             insert ''Color'' {''Title''})"
    using plant_characteristics_gate [OF h1 h2 h3,
        of "[(''Color'', ''Blue''), (''Why chose this product Title 1'', ''Hardy''),
             (''Why chose this product 1'', ''Grows anywhere'')]" "[Title ''Unknown Product'']"] c f
    by auto
  have opened: "process_field [(''Color'', ''Blue''), (''Water'', ''Low'')]
        (''Color'', ''Blue'') ([Title ''Unknown Product''], {''Title''})
      = Inr ([Title ''Unknown Product'',
              Table ''Plant Characteristics'' [(''Color'', ''Blue''), (''Water'', ''Low'')]],
             {''Title''} \<union> fst ` set [(''Color'', ''Blue''), (''Water'', ''Low'')])"
    using plant_characteristics_gate [OF h1 h2 h3,
        of "[(''Color'', ''Blue''), (''Water'', ''Low'')]" "[Title ''Unknown Product'']"] a m
    unfolding e by auto
  show ?thesis
    using h1 h2 h3 c closed d m opened by blast
qed

text \<open>
  C2 as stated fails: with an existing, unconsumed title in the record, the step for
  \<open>Color\<close> emits a labelled paragraph and marks \<open>Color\<close> consumed.
\<close>

theorem plant_characteristics_deferral_counterexample:
  "''Color'' \<in> set table2_fields
   \<and> map_of [(''Color'', ''Blue''), (''Why chose this product Title 1'', ''Hardy''),
              (''Why chose this product 1'', ''Grows anywhere'')] ''Why chose this product Title 1'' \<noteq> None
   \<and> ''Why chose this product Title 1'' \<notin> {''Title''}
   \<and> process_field
        [(''Color'', ''Blue''), (''Why chose this product Title 1'', ''Hardy''),
         (''Why chose this product 1'', ''Grows anywhere'')]
        (''Color'', ''Blue'') ([Title ''Unknown Product''], {''Title''})
      = Inr ([Title ''Unknown Product'', LabeledParagraph ''Color'' ''Blue''], {''Title'', ''Color''})
   \<and> ''Color'' \<in> {''Title'', ''Color''}"
  by code_simp




text \<open>
  C4, as the code has it. For a field present with an empty value in a record with distinct
  names: its iteration leaves the document and the consumed set unchanged; at the end of
  the build its name is in the consumed set only if it is \<open>Title\<close> (which is there
  from the start); no instruction after the title renders an empty value, and no table has
  a row for the field.
\<close>

theorem empty_value_skipped:
  assumes "distinct (map fst pd)" "(key, []) \<in> set pd"
    and "create_product_document pd = Inr (doc, processed)"
  shows "process_field pd (key, []) st = Inr st
     \<and> (key \<in> processed \<longleftrightarrow> key = ''Title'')
     \<and> (\<forall>i\<in>set (tl doc). [] \<notin> set (instr_values i))
     \<and> (\<forall>title rows. Table title rows \<in> set doc \<longrightarrow> key \<notin> fst ` set rows)"
proof -
  have s: "process_field pd (key, []) st = Inr st"
    by (cases st) (simp add: process_field_def)
  have "map_of pd key = Some []"
    using assms(1,2) by simp
  then have none: "truthy_value pd key = None"
    by (simp add: truthy_value_def)
  have v: "values_ok pd (doc, processed)"
    using values_ok_build [OF assms(3,1)] .
  then have m: "key \<in> processed \<longleftrightarrow> key = ''Title''"
    using none by (auto simp: values_ok_def)
  have b: "\<forall>i\<in>set (tl doc). [] \<notin> set (instr_values i)"
    using v by (simp add: values_ok_def)
  have t: "key \<notin> fst ` set rows" if "Table title rows \<in> set doc" for title rows
  proof -
    have "rows = collect_fields table1_fields pd \<or> rows = collect_fields table2_fields pd"
      using tables_ok_build [OF assms(3)] that by (auto simp: tables_ok_def)
    then show ?thesis
      using none by (auto simp: collect_fields_iff)
  qed
  show ?thesis
    using s m b t by blast
qed

theorem empty_value_skipped_witness:
  "distinct (map fst [(''Title'', ''Blue Flax''), (''SKU'', ''''), (''Soil pH'', ''6.0'')])
   \<and> (''SKU'', []) \<in> set [(''Title'', ''Blue Flax''), (''SKU'', ''''), (''Soil pH'', ''6.0'')]
   \<and> create_product_document [(''Title'', ''Blue Flax''), (''SKU'', ''''), (''Soil pH'', ''6.0'')]
       = Inr ([Title ''Blue Flax'', Table ''Growing Conditions'' [(''Soil pH'', ''6.0'')]],
              {''Title'', ''Soil pH''})
   \<and> ''SKU'' \<notin> {''Title'', ''Soil pH''}
   \<and> process_field [(''Title'', ''Blue Flax''), (''SKU'', ''''), (''Soil pH'', ''6.0'')]
        (''SKU'', []) ([Title ''Blue Flax''], {''Title''}) = Inr ([Title ''Blue Flax''], {''Title''})"
proof -
  have h1: "distinct (map fst [(''Title'', ''Blue Flax''), (''SKU'', ''''), (''Soil pH'', ''6.0'')])"
    by simp
  have h2: "(''SKU'', []) \<in> set [(''Title'', ''Blue Flax''), (''SKU'', ''''), (''Soil pH'', ''6.0'')]"
    by simp
  have h3: "create_product_document [(''Title'', ''Blue Flax''), (''SKU'', ''''), (''Soil pH'', ''6.0'')]
       = Inr ([Title ''Blue Flax'', Table ''Growing Conditions'' [(''Soil pH'', ''6.0'')]],
              {''Title'', ''Soil pH''})"
    by code_simp
  have ne: "''SKU'' \<noteq> ''Title''" by simp
  from empty_value_skipped [OF h1 h2 h3, of "([Title ''Blue Flax''], {''Title''})"]
  have "process_field [(''Title'', ''Blue Flax''), (''SKU'', ''''), (''Soil pH'', ''6.0'')]
        (''SKU'', []) ([Title ''Blue Flax''], {''Title''}) = Inr ([Title ''Blue Flax''], {''Title''})"
    and "''SKU'' \<notin> {''Title'', ''Soil pH''}"
    using ne by blast+
  then show ?thesis
    using h1 h2 h3 by blast
qed

text \<open>
  C4 as stated fails: a field with an empty value is not marked consumed.
\<close>

theorem empty_value_unmarked_counterexample:
  "(''SKU'', '''') \<in> set [(''Title'', ''Blue Flax''), (''SKU'', '''')]
   \<and> create_product_document [(''Title'', ''Blue Flax''), (''SKU'', '''')]
       = Inr ([Title ''Blue Flax''], {''Title''})
   \<and> ''SKU'' \<notin> {''Title''}"
  by code_simp

text \<open>
  C5. In a record with distinct names, when a Growing Conditions field with a non-empty
  value that is not yet consumed is met, the step emits exactly one table
  "Growing Conditions" and marks all collected names consumed. The collected pairs are
  exactly the members of the fixed list that are present and non-empty in the record,
  wherever they stand, and their number is the number of such members (3 for a record with
  3 of them). The build as a whole returns, and its document holds that table exactly once.
\<close>

theorem growing_conditions_group_emit:
  assumes "distinct (map fst pd)" "(key, val) \<in> set pd" "key \<in> set table1_fields"
    and "val \<noteq> []" "key \<notin> processed"
  shows "process_field pd (key, val) (doc, processed)
           = Inr (doc @ [Table ''Growing Conditions'' (collect_fields table1_fields pd)],
                  processed \<union> fst ` set (collect_fields table1_fields pd))
     \<and> set (collect_fields table1_fields pd)
           = {(k, v). k \<in> set table1_fields \<and> (k, v) \<in> set pd \<and> v \<noteq> []}
     \<and> length (collect_fields table1_fields pd)
           = card {k \<in> set table1_fields. \<exists>v. (k, v) \<in> set pd \<and> v \<noteq> []}
     \<and> (\<exists>doc' processed'. create_product_document pd = Inr (doc', processed')
           \<and> filter (table_titled ''Growing Conditions'') doc'
               = [Table ''Growing Conditions'' (collect_fields table1_fields pd)]
           \<and> fst ` set (collect_fields table1_fields pd) \<subseteq> processed')"
proof -
  have tv: "\<And>k v. truthy_value pd k = Some v \<longleftrightarrow> (k, v) \<in> set pd \<and> v \<noteq> []"
    using truthy_value_iff [OF assms(1)] .
  have mem: "(key, val) \<in> set (collect_fields table1_fields pd)"
    using assms(2,3,4) tv by (simp add: collect_fields_iff)
  then have ne: "collect_fields table1_fields pd \<noteq> []"
    by auto
  have step: "process_field pd (key, val) (doc, processed)
           = Inr (doc @ [Table ''Growing Conditions'' (collect_fields table1_fields pd)],
                  processed \<union> fst ` set (collect_fields table1_fields pd))"
    using process_field_table1 [OF assms(3,4,5)] ne by (simp add: emit_table_eq)
  have content: "set (collect_fields table1_fields pd)
           = {(k, v). k \<in> set table1_fields \<and> (k, v) \<in> set pd \<and> v \<noteq> []}"
    using tv by (auto simp: collect_fields_iff)
  have "{k \<in> set table1_fields. truthy_value pd k \<noteq> None}
          = {k \<in> set table1_fields. \<exists>v. (k, v) \<in> set pd \<and> v \<noteq> []}"
    using tv by auto
  then have len: "length (collect_fields table1_fields pd)
           = card {k \<in> set table1_fields. \<exists>v. (k, v) \<in> set pd \<and> v \<noteq> []}"
    using collect_fields_length [OF distinct_table_fields(1), of pd] by simp
  obtain doc' processed' where b: "create_product_document pd = Inr (doc', processed')"
    using process_fields_total [of pd pd "initial_state pd"]
    by (auto simp: create_product_document_def)
  have "filter (table_titled ''Growing Conditions'') doc'
               = [Table ''Growing Conditions'' (collect_fields table1_fields pd)]
           \<and> fst ` set (collect_fields table1_fields pd) \<subseteq> processed'"
    using gc_build [OF b assms(1)] ne by simp
  then show ?thesis
    using step content len b by blast
qed

theorem growing_conditions_group_emit_witness:
  "distinct (map fst
      [(''Title'', ''Blue Flax''), (''Planting Depth'', ''1/8 inch''), (''SKU'', ''W-BF''),
       (''Soil pH'', ''6.0-7.5''), (''Days to Maturity'', ''''), (''Soil Preference'', ''Well-drained'')])
   \<and> (''Planting Depth'', ''1/8 inch'') \<in> set
      [(''Title'', ''Blue Flax''), (''Planting Depth'', ''1/8 inch''), (''SKU'', ''W-BF''),
       (''Soil pH'', ''6.0-7.5''), (''Days to Maturity'', ''''), (''Soil Preference'', ''Well-drained'')]
   \<and> ''Planting Depth'' \<in> set table1_fields \<and> ''1/8 inch'' \<noteq> [] \<and> ''Planting Depth'' \<notin> {''Title''}
   \<and> process_field
      [(''Title'', ''Blue Flax''), (''Planting Depth'', ''1/8 inch''), (''SKU'', ''W-BF''),
       (''Soil pH'', ''6.0-7.5''), (''Days to Maturity'', ''''), (''Soil Preference'', ''Well-drained'')]
      (''Planting Depth'', ''1/8 inch'') ([Title ''Blue Flax''], {''Title''})
     = Inr ([Title ''Blue Flax''] @ [Table ''Growing Conditions''
              [(''Soil Preference'', ''Well-drained''), (''Soil pH'', ''6.0-7.5''),
               (''Planting Depth'', ''1/8 inch'')]],
            {''Title''} \<union> fst ` set
              [(''Soil Preference'', ''Well-drained''), (''Soil pH'', ''6.0-7.5''),
               (''Planting Depth'', ''1/8 inch'')])
   \<and> (\<exists>doc' processed'. create_product_document
      [(''Title'', ''Blue Flax''), (''Planting Depth'', ''1/8 inch''), (''SKU'', ''W-BF''),
       (''Soil pH'', ''6.0-7.5''), (''Days to Maturity'', ''''), (''Soil Preference'', ''Well-drained'')]
        = Inr (doc', processed')
      \<and> filter (table_titled ''Growing Conditions'') doc'
          = [Table ''Growing Conditions''
              [(''Soil Preference'', ''Well-drained''), (''Soil pH'', ''6.0-7.5''),
               (''Planting Depth'', ''1/8 inch'')]])"
proof -
  let ?pd = "[(''Title'', ''Blue Flax''), (''Planting Depth'', ''1/8 inch''), (''SKU'', ''W-BF''),
       (''Soil pH'', ''6.0-7.5''), (''Days to Maturity'', ''''), (''Soil Preference'', ''Well-drained'')]"
  have h1: "distinct (map fst ?pd)" by simp
  have h2: "(''Planting Depth'', ''1/8 inch'') \<in> set ?pd" by simp
  have h3: "''Planting Depth'' \<in> set table1_fields" by code_simp
  have h4: "''1/8 inch'' \<noteq> []" by simp
  have h5: "''Planting Depth'' \<notin> {''Title''}" by simp
  have e: "collect_fields table1_fields ?pd
      = [(''Soil Preference'', ''Well-drained''), (''Soil pH'', ''6.0-7.5''),
         (''Planting Depth'', ''1/8 inch'')]"
    by code_simp
  show ?thesis
    using growing_conditions_group_emit [OF h1 h2 h3 h4 h5, of "[Title ''Blue Flax'']"] h1 h2 h3 h4 h5
    unfolding e by blast
qed

text \<open>
  C10. Every table of a built document is titled "Growing Conditions" or
  "Plant Characteristics", and its rows are the collected members of the corresponding
  fixed list in the order of that list: the names of the rows form a subsequence of the
  list. The rows do not depend on the order of the record: a record with the same fields
  in another order gives the same rows for a table of that title.
\<close>

theorem table_rows_in_declaration_order:
  assumes "create_product_document pd = Inr (doc, processed)" "Table title rows \<in> set doc"
  shows "((title = ''Growing Conditions'' \<and> rows = collect_fields table1_fields pd
            \<and> subseq (map fst rows) table1_fields)
          \<or> (title = ''Plant Characteristics'' \<and> rows = collect_fields table2_fields pd
            \<and> subseq (map fst rows) table2_fields))
     \<and> (\<forall>pd' doc2 processed2 rows2.
           distinct (map fst pd) \<and> distinct (map fst pd') \<and> set pd' = set pd
           \<and> create_product_document pd' = Inr (doc2, processed2) \<and> Table title rows2 \<in> set doc2
           \<longrightarrow> rows2 = rows)"
proof -
  have a: "(title = ''Growing Conditions'' \<and> rows = collect_fields table1_fields pd)
          \<or> (title = ''Plant Characteristics'' \<and> rows = collect_fields table2_fields pd)"
    using tables_ok_build [OF assms(1)] assms(2) by (auto simp: tables_ok_def)
  then have first: "(title = ''Growing Conditions'' \<and> rows = collect_fields table1_fields pd
            \<and> subseq (map fst rows) table1_fields)
          \<or> (title = ''Plant Characteristics'' \<and> rows = collect_fields table2_fields pd
            \<and> subseq (map fst rows) table2_fields)"
    using collect_fields_subseq by auto
  have second: "rows2 = rows"
    if "distinct (map fst pd)" "distinct (map fst pd')" "set pd' = set pd"
      "create_product_document pd' = Inr (doc2, processed2)" "Table title rows2 \<in> set doc2"
    for pd' doc2 processed2 rows2
  proof -
    have b: "(title = ''Growing Conditions'' \<and> rows2 = collect_fields table1_fields pd')
          \<or> (title = ''Plant Characteristics'' \<and> rows2 = collect_fields table2_fields pd')"
      using tables_ok_build [OF that(4)] that(5) by (auto simp: tables_ok_def)
    have "collect_fields fs pd' = collect_fields fs pd" for fs
      using collect_fields_perm [of pd' pd fs] that(1,2,3) by simp
    then show ?thesis
      using a b by auto
  qed
  show ?thesis
    using first second by blast
qed

theorem table_rows_in_declaration_order_witness:
  "create_product_document
      [(''Planting Depth'', ''1/8 inch''), (''Soil pH'', ''6.0''), (''Water'', ''Low''), (''Color'', ''Blue'')]
     = Inr ([Title ''Unknown Product'',
             Table ''Growing Conditions'' [(''Soil pH'', ''6.0''), (''Planting Depth'', ''1/8 inch'')],
             Table ''Plant Characteristics'' [(''Color'', ''Blue''), (''Water'', ''Low'')]],
            {''Title'', ''Soil pH'', ''Planting Depth'', ''Color'', ''Water''})
   \<and> Table ''Growing Conditions'' [(''Soil pH'', ''6.0''), (''Planting Depth'', ''1/8 inch'')]
       \<in> set [Title ''Unknown Product'',
             Table ''Growing Conditions'' [(''Soil pH'', ''6.0''), (''Planting Depth'', ''1/8 inch'')],
             Table ''Plant Characteristics'' [(''Color'', ''Blue''), (''Water'', ''Low'')]]
   \<and> subseq (map fst [(''Soil pH'', ''6.0''), (''Planting Depth'', ''1/8 inch'')]) table1_fields"
proof -
  have h1: "create_product_document
      [(''Planting Depth'', ''1/8 inch''), (''Soil pH'', ''6.0''), (''Water'', ''Low''), (''Color'', ''Blue'')]
     = Inr ([Title ''Unknown Product'',
             Table ''Growing Conditions'' [(''Soil pH'', ''6.0''), (''Planting Depth'', ''1/8 inch'')],
             Table ''Plant Characteristics'' [(''Color'', ''Blue''), (''Water'', ''Low'')]],
            {''Title'', ''Soil pH'', ''Planting Depth'', ''Color'', ''Water''})"
    by code_simp
  have h2: "Table ''Growing Conditions'' [(''Soil pH'', ''6.0''), (''Planting Depth'', ''1/8 inch'')]
       \<in> set [Title ''Unknown Product'',
             Table ''Growing Conditions'' [(''Soil pH'', ''6.0''), (''Planting Depth'', ''1/8 inch'')],
             Table ''Plant Characteristics'' [(''Color'', ''Blue''), (''Water'', ''Low'')]]"
    by simp
  have ne: "''Growing Conditions'' \<noteq> ''Plant Characteristics''" by simp
  have "subseq (map fst [(''Soil pH'', ''6.0''), (''Planting Depth'', ''1/8 inch'')]) table1_fields"
    using table_rows_in_declaration_order [OF h1 h2] ne by blast
  then show ?thesis
    using h1 h2 by blast
qed

section \<open>Properties of the product collection, the command line and the response parsing\<close>







lemma add_new_product_appends:
  assumes "\<not> no_key api_key" "is_mix \<longrightarrow> mix_components \<noteq> None" "product_data \<noteq> []"
    and "\<forall>existing\<in>set (load_existing_products s). lower (dict_get existing ''Title'' '''') \<noteq> lower title"
  shows "add_new_product title api_key is_mix mix_components env_key (Some product_data) s
         = (Inr True, save_products (load_existing_products s @ [product_data]) s)"
  using assms by (auto simp: add_new_product_def Let_def list_ex_iff)

text \<open>
  C8. When the title given to \<open>add_new_product\<close> equals, ignoring case, the
  \<open>Title\<close> of a stored record, the function leaves the store as it was: nothing is
  appended, the file is unchanged and \<open>save_products\<close> is not called; and it returns
  \<open>False\<close>, for every call that gives the list of components when it sets \<open>is_mix\<close>.
  This holds whatever the key and the generated record are.
\<close>

theorem duplicate_title_skipped:
  assumes "existing \<in> set (load_existing_products s)"
    and "lower (dict_get existing ''Title'' '''') = lower title"
  shows "snd (add_new_product title api_key is_mix mix_components env_key generated s) = s
     \<and> ((is_mix \<longrightarrow> mix_components \<noteq> None) \<longrightarrow>
          add_new_product title api_key is_mix mix_components env_key generated s = (Inr False, s))"
  using assms by (auto simp: add_new_product_def Let_def list_ex_iff split: option.splits)

theorem duplicate_title_skipped_witness:
  "[(''Title'', ''Blue Flax''), (''SKU'', ''W-BF'')] \<in> set (load_existing_products
       \<lparr>products_file = Some [[(''Title'', ''Blue Flax''), (''SKU'', ''W-BF'')]], saves = 0\<rparr>)
   \<and> lower (dict_get [(''Title'', ''Blue Flax''), (''SKU'', ''W-BF'')] ''Title'' '''') = lower ''BLUE flax''
   \<and> add_new_product ''BLUE flax'' None True (Some [''Blue flax'', ''Yarrow'']) (Some ''sk-key'')
        (Some [(''Title'', ''BLUE flax'')])
        \<lparr>products_file = Some [[(''Title'', ''Blue Flax''), (''SKU'', ''W-BF'')]], saves = 0\<rparr>
       = (Inr False, \<lparr>products_file = Some [[(''Title'', ''Blue Flax''), (''SKU'', ''W-BF'')]], saves = 0\<rparr>)"
proof -
  have h1: "[(''Title'', ''Blue Flax''), (''SKU'', ''W-BF'')] \<in> set (load_existing_products
       \<lparr>products_file = Some [[(''Title'', ''Blue Flax''), (''SKU'', ''W-BF'')]], saves = 0\<rparr>)"
    by (simp add: load_existing_products_def)
  have h2: "lower (dict_get [(''Title'', ''Blue Flax''), (''SKU'', ''W-BF'')] ''Title'' '''')
            = lower ''BLUE flax''"
    by code_simp
  have h3: "Some [''Blue flax'', ''Yarrow''] \<noteq> None"
    by simp
  show ?thesis
    using duplicate_title_skipped [OF h1 h2, of None True "Some [''Blue flax'', ''Yarrow'']"
        "Some ''sk-key''" "Some [(''Title'', ''BLUE flax'')]"] h1 h2 h3
    by blast
qed

text \<open>
  C9. Invoked with \<open>--product name\<close>, the script raises
  \<open>NameError: name 'load_products' is not defined\<close> before it looks at the collection:
  for every name and every stored collection no record is rendered and no document saved.
\<close>

theorem product_mode_name_error:
  "run_script [prog, ''--product'', product_name] stored = Inl (NameError ''load_products'')"
  by (simp add: run_script_def product_mode_def resolve_def module_globals_def)




end
